theory Spec2Isabelle
  imports Complex_Main "HOL-Library.List_Lexorder"
begin

section \<open>Python values\<close>

text \<open>
  A Python \<open>str\<close> is a sequence of Unicode code points, and \<open>len\<close> counts code
  points.  The glyphs of \<open>constants.py\<close> lie outside ASCII, so a string is modelled as
  the list of its code points; \<open>ascii\<close> embeds a plain literal.  Lists are ordered
  lexicographically, which is the order Python and pandas use to sort strings.
\<close>

type_synonym pystr = "nat list"

definition ascii :: "string \<Rightarrow> pystr" where
  "ascii s = map of_char s"

text \<open>
  A \<open>dict\<close> literal is an association list in insertion order; \<open>dict.get(key, default)\<close>
  returns the stored value, or the default when the key is absent, and never raises for a
  hashable key.
\<close>

type_synonym ('k, 'v) dict = "('k \<times> 'v) list"

definition dict_get :: "('k, 'v) dict \<Rightarrow> 'k \<Rightarrow> 'v \<Rightarrow> 'v" where
  "dict_get d k dflt = (case map_of d k of None \<Rightarrow> dflt | Some v \<Rightarrow> v)"

definition dict_keys :: "('k, 'v) dict \<Rightarrow> 'k list" where
  "dict_keys d = map fst d"

section \<open>constants.py\<close>

text \<open>The two block glyphs: U+25B0 (filled) and U+25B1 (empty).\<close>

definition FILLED :: nat where
  "FILLED = 9648"

definition HOLLOW :: nat where
  "HOLLOW = 9649"

definition STAGING_TEXT_REPRESENTATION :: "(pystr, pystr) dict" where
  "STAGING_TEXT_REPRESENTATION =
     [(ascii ''Triage'',     [FILLED, HOLLOW, HOLLOW, HOLLOW, HOLLOW]),
      (ascii ''Analysis'',   [FILLED, FILLED, HOLLOW, HOLLOW, HOLLOW]),
      (ascii ''Alpha Test'', [FILLED, FILLED, FILLED, HOLLOW, HOLLOW]),
      (ascii ''Beta Test'',  [FILLED, FILLED, FILLED, FILLED, HOLLOW]),
      (ascii ''Roll-out'',   [FILLED, FILLED, FILLED, FILLED, FILLED])]"

text \<open>
  The priority texts end in an emoji: U+1F525 (fire), U+1F6A8 (siren), U+2B50 (star),
  U+1F422 (turtle), U+1F40C (snail).
\<close>

definition PRIORITY_TEXT_REPRESENTATION :: "(pystr, pystr) dict" where
  "PRIORITY_TEXT_REPRESENTATION =
     [(ascii ''P1'', ascii ''P1 '' @ [128293]),
      (ascii ''P2'', ascii ''P2 '' @ [128680]),
      (ascii ''P3'', ascii ''P3 '' @ [11088]),
      (ascii ''P4'', ascii ''P4 '' @ [128034]),
      (ascii ''P5'', ascii ''P5 '' @ [128012])]"

definition get_staging_text :: "pystr \<Rightarrow> pystr" where
  "get_staging_text staging = dict_get STAGING_TEXT_REPRESENTATION staging (ascii ''-----'')"

definition get_priority_text :: "pystr \<Rightarrow> pystr" where
  "get_priority_text priority = dict_get PRIORITY_TEXT_REPRESENTATION priority (ascii ''unknown'')"

section \<open>NumPy and pandas values\<close>

text \<open>
  A \<open>float64\<close> value is a number of the binary64 format or NaN; \<open>None\<close> stands for
  NaN, which every arithmetic operation propagates.  The numbers of the format are the
  integer multiples of a power of two, \<open>k * 2 ^ j\<close> with \<open>\<bar>k\<bar> < 2 ^ 53\<close> and
  \<open>j \<ge> -1074\<close>.  Every arithmetic operation returns the exact result rounded to the
  nearest number of the format, a tie going to the neighbour with the even multiple:
  \<open>round64\<close>.  Around \<open>x\<close> the numbers of the format are \<open>ulp x\<close> apart, which is
  \<open>2 ^ (e - 52)\<close> for \<open>2 ^ e \<le> \<bar>x\<bar> < 2 ^ (e + 1)\<close> and never less than \<open>2 ^ -1074\<close>.
  The format ends at \<open>2 ^ 1024\<close>; results that reach it (the infinities) are outside the
  model.
\<close>

type_synonym float64 = "real option"

definition round_half_even :: "real \<Rightarrow> int" where
  "round_half_even y =
     (let f = \<lfloor>y\<rfloor>; d = y - of_int f
      in if d < 1 / 2 then f else if 1 / 2 < d then f + 1 else if even f then f else f + 1)"

definition float64_exponent :: "real \<Rightarrow> int" where
  "float64_exponent x = max \<lfloor>log 2 \<bar>x\<bar>\<rfloor> (- 1022)"

definition ulp :: "real \<Rightarrow> real" where
  "ulp x = 2 powi (float64_exponent x - 52)"

definition round64 :: "real \<Rightarrow> real" where
  "round64 x =
     (if x = 0 then 0 else sgn x * (of_int (round_half_even (\<bar>x\<bar> / ulp x)) * ulp x))"

definition is_float64 :: "real \<Rightarrow> bool" where
  "is_float64 x = (round64 x = x)"

definition float_add :: "float64 \<Rightarrow> float64 \<Rightarrow> float64" where
  "float_add a b = (case (a, b) of (Some u, Some v) \<Rightarrow> Some (round64 (u + v)) | _ \<Rightarrow> None)"

definition float_sub :: "float64 \<Rightarrow> float64 \<Rightarrow> float64" where
  "float_sub a b = (case (a, b) of (Some u, Some v) \<Rightarrow> Some (round64 (u - v)) | _ \<Rightarrow> None)"

definition float_mul :: "float64 \<Rightarrow> float64 \<Rightarrow> float64" where
  "float_mul a b = (case (a, b) of (Some u, Some v) \<Rightarrow> Some (round64 (u * v)) | _ \<Rightarrow> None)"

text \<open>
  The process-wide generator of \<open>np.random\<close> is the stream of its future draws;
  \<open>np.random.rand(n)\<close> takes the next \<open>n\<close> of them, each from the half-open
  interval from 0 to 1, and leaves the rest.
\<close>

type_synonym rng = "nat \<Rightarrow> real"

definition uniform01 :: "rng \<Rightarrow> bool" where
  "uniform01 g = (\<forall>k. 0 \<le> g k \<and> g k < 1)"

definition rand :: "nat \<Rightarrow> rng \<Rightarrow> real list \<times> rng" where
  "rand n g = (map g [0..<n], \<lambda>k. g (n + k))"

text \<open>
  A pandas \<open>Series\<close> is a list of values, each with its row label; a \<open>DataFrame\<close> is a
  list of labelled rows, a row being a record of the named columns.  \<open>read_csv\<close> labels
  the rows 0, 1, 2, ...; selecting rows by a boolean mask and taking a column keep the
  labels.
\<close>

type_synonym 'a series = "(nat \<times> 'a) list"

type_synonym 'r dataframe = "(nat \<times> 'r) list"

definition read_csv :: "'r list \<Rightarrow> 'r dataframe" where
  "read_csv csv_rows = zip [0..<length csv_rows] csv_rows"

definition column :: "('r \<Rightarrow> 'a) \<Rightarrow> 'r dataframe \<Rightarrow> 'a series" where
  "column f df = map (\<lambda>(i, r). (i, f r)) df"

definition select_rows :: "('r \<Rightarrow> bool) \<Rightarrow> 'r dataframe \<Rightarrow> 'r dataframe" where
  "select_rows cond df = filter (\<lambda>(i, r). cond r) df"

text \<open>\<open>Series.map(dict)\<close>: a value that is not a key of the dict becomes missing.\<close>

definition series_map :: "('k, 'v) dict \<Rightarrow> 'k \<Rightarrow> 'v option" where
  "series_map d v = map_of d v"

section \<open>graph\_utils.py: the scatter plot\<close>

definition add_jitter :: "float64 series \<Rightarrow> real \<Rightarrow> rng \<Rightarrow> float64 series \<times> rng" where
  "add_jitter series jitter_amount g =
     (let (u, g') = rand (length series) g
      in (map2 (\<lambda>(i, v) r.
                  (i, float_add v (float_mul (float_sub (Some r) (Some 0.5)) (Some jitter_amount))))
            series u, g'))"

record project_row =
  estimated_effort :: pystr
  estimated_impact :: pystr
  priority :: pystr

record prepared_row = project_row +
  numerical_effort :: float64
  numerical_impact :: float64
  color :: "pystr option"

definition effort_mapping :: "(pystr, real) dict" where
  "effort_mapping =
     [(ascii ''Hours'', 1), (ascii ''Days'', 2), (ascii ''Weeks'', 3), (ascii ''Months'', 4),
      (ascii ''Quarters'', 5)]"

definition impact_mapping :: "(pystr, real) dict" where
  "impact_mapping =
     [(ascii ''Very Low'', 1), (ascii ''Low'', 2), (ascii ''Medium'', 3), (ascii ''High'', 4),
      (ascii ''Very High'', 5)]"

definition priority_color_mapping :: "(pystr, pystr) dict" where
  "priority_color_mapping =
     [(ascii ''P1 '' @ [128293], ascii ''red''), (ascii ''P2'', ascii ''orange''),
      (ascii ''P3'', ascii ''green''), (ascii ''P4'', ascii ''blue'')]"

definition prepare_row :: "project_row \<Rightarrow> prepared_row" where
  "prepare_row r =
     \<lparr>estimated_effort = estimated_effort r,
      estimated_impact = estimated_impact r,
      priority = priority r,
      numerical_effort = series_map effort_mapping (estimated_effort r),
      numerical_impact = series_map impact_mapping (estimated_impact r),
      color = series_map priority_color_mapping (priority r)\<rparr>"

definition load_and_prepare_data ::
  "project_row list \<Rightarrow> prepared_row dataframe \<times> (pystr, pystr) dict" where
  "load_and_prepare_data csv_rows =
     (let project_df = read_csv csv_rows
      in (map (\<lambda>(i, r). (i, prepare_row r)) project_df, priority_color_mapping))"

text \<open>
  One call of \<open>plt.scatter\<close>: the two coordinate series, the colour and the legend label.
\<close>

record scatter_series =
  scatter_x :: "float64 series"
  scatter_y :: "float64 series"
  scatter_c :: pystr
  scatter_label :: pystr

text \<open>
  The loop of \<open>create_scatter_plot\<close> over the items of the colour mapping.  The
  arguments of \<open>plt.scatter\<close> are evaluated left to right, so the draws for the effort
  axis come before those for the impact axis.
\<close>

fun create_scatter_plot ::
  "prepared_row dataframe \<Rightarrow> (pystr, pystr) dict \<Rightarrow> real \<Rightarrow> rng \<Rightarrow> scatter_series list \<times> rng" where
  "create_scatter_plot df [] jitter_amount g = ([], g)"
| "create_scatter_plot df ((key, colr) # items) jitter_amount g =
     (let subset = select_rows (\<lambda>r. priority r = key) df;
          (xs, g1) = add_jitter (column numerical_effort subset) jitter_amount g;
          (ys, g2) = add_jitter (column numerical_impact subset) jitter_amount g1;
          (rest, g3) = create_scatter_plot df items jitter_amount g2
      in (\<lparr>scatter_x = xs, scatter_y = ys, scatter_c = colr, scatter_label = key\<rparr> # rest, g3))"

text \<open>
  What \<open>plt.scatter\<close> draws of a series: it masks every point with a coordinate that
  is not a number, and draws the others.
\<close>

definition drawn_point :: "(nat \<times> float64) \<times> (nat \<times> float64) \<Rightarrow> (nat \<times> real \<times> real) option" where
  "drawn_point pq =
     (case (snd (fst pq), snd (snd pq)) of
        (Some u, Some v) \<Rightarrow> Some (fst (fst pq), u, v)
      | _ \<Rightarrow> None)"

definition drawn_points :: "scatter_series \<Rightarrow> (nat \<times> real \<times> real) list" where
  "drawn_points s = List.map_filter drawn_point (zip (scatter_x s) (scatter_y s))"

section \<open>graph\_utils.py: the bar charts\<close>

text \<open>
  The three bar-chart functions receive a data frame with one row per engineer and month:
  the columns \<open>YearMonth\<close>, \<open>Closed by\<close> and \<open>ResolvedCount\<close>, the last an int64 column
  of counts.
\<close>

record resolved_row =
  year_month :: pystr
  closed_by :: pystr
  resolved_count :: int

datatype pd_error = ValueError | TypeError

text \<open>
  A reshaped data frame: its row labels, its column labels, and one list of cells per row
  label, with one cell per column label.
\<close>

record ('a, 'b, 'v) frame =
  frame_index :: "'a list"
  frame_columns :: "'b list"
  frame_values :: "'v list list"

text \<open>
  \<open>DataFrame.pivot(index, columns, values)\<close> of pandas, for an int64 column of values.
  It raises \<open>ValueError: Index contains duplicate entries, cannot reshape\<close> when two
  rows have the same pair of index and column key.  Otherwise the result has the distinct
  index keys as row labels and the distinct column keys as column labels, both sorted, and
  the cell of a pair is the value of the row with that pair, or missing (NaN) when there
  is none.  When no cell is missing the values stay the integers they are; as soon as
  one is missing the whole result becomes float64, and every value is rounded to the
  nearest float64.
\<close>

definition pivot ::
  "('r \<Rightarrow> 'a::linorder) \<Rightarrow> ('r \<Rightarrow> 'b::linorder) \<Rightarrow> ('r \<Rightarrow> int) \<Rightarrow> 'r dataframe
     \<Rightarrow> pd_error + ('a, 'b, float64) frame" where
  "pivot idx cols vals df =
     (let rows = map snd df;
          cells = map (\<lambda>r. ((idx r, cols r), vals r)) rows;
          index = sort (remdups (map idx rows));
          columns = sort (remdups (map cols rows));
          complete = list_all (\<lambda>i. list_all (\<lambda>c. map_of cells (i, c) \<noteq> None) columns) index;
          as_cell = (\<lambda>n. if complete then of_int n else round64 (of_int n))
      in if \<not> distinct (map fst cells) then Inl ValueError
         else Inr \<lparr>frame_index = index,
                   frame_columns = columns,
                   frame_values =
                     map (\<lambda>i. map (\<lambda>c. map_option as_cell (map_of cells (i, c))) columns) index\<rparr>)"

text \<open>\<open>DataFrame.fillna(value)\<close>: every missing cell becomes the value.\<close>

definition fillna :: "real \<Rightarrow> ('a, 'b, float64) frame \<Rightarrow> ('a, 'b, real) frame" where
  "fillna v t =
     \<lparr>frame_index = frame_index t,
      frame_columns = frame_columns t,
      frame_values = map (map (\<lambda>cell. case cell of None \<Rightarrow> v | Some u \<Rightarrow> u)) (frame_values t)\<rparr>"

text \<open>
  \<open>t.loc[i, c]\<close>, the cell at a row label and a column label; \<open>None\<close> where pandas
  raises \<open>KeyError\<close> because a label is absent.
\<close>

definition loc :: "('a, 'b, 'v) frame \<Rightarrow> 'a \<Rightarrow> 'b \<Rightarrow> 'v option" where
  "loc t i c =
     (case map_of (zip (frame_index t) (frame_values t)) i of
        None \<Rightarrow> None
      | Some row \<Rightarrow> map_of (zip (frame_columns t) row) c)"

text \<open>
  \<open>np.linspace(0, 1, n)\<close>: the step \<open>1 / (n - 1)\<close> is computed once, element \<open>j\<close> is
  \<open>j\<close> times the step, and the last element is set to 1.
\<close>

definition linspace01 :: "nat \<Rightarrow> real list" where
  "linspace01 n =
     (if n = 0 then []
      else if n = 1 then [0]
      else map (\<lambda>j. round64 (real j * round64 (1 / real (n - 1)))) [0..<n - 1] @ [1])"

text \<open>
  The colormap \<open>tab20\<close> is a palette of 20 colours, named here by their position.
  Called with a float \<open>x\<close>, it takes the colour at position \<open>x * 20\<close> cut down to an
  integer; \<open>x = 1\<close> and everything above get the last colour, everything below 0 the
  first.
\<close>

definition tab20 :: "real \<Rightarrow> nat" where
  "tab20 x = min 19 (nat \<lfloor>round64 (x * 20)\<rfloor>)"

text \<open>
  What \<open>DataFrame.plot(kind='bar', stacked, cmap='tab20')\<close> hands to matplotlib: one
  bar series per column of the frame, with the column label as legend entry, its colour,
  and one bar per row label, as high as the cell.  For a frame with \<open>n\<close> columns pandas
  takes the colours \<open>[cmap(x) for x in np.linspace(0, 1, n)]\<close>.  A frame without rows
  or columns makes pandas raise \<open>TypeError: no numeric data to plot\<close>.
\<close>

record ('a, 'b) bar_series =
  bar_label :: 'b
  bar_color :: nat
  bar_heights :: "('a \<times> real) list"

record ('a, 'b) bar_chart =
  chart_stacked :: bool
  chart_series :: "('a, 'b) bar_series list"

definition plot_bar :: "bool \<Rightarrow> ('a, 'b, real) frame \<Rightarrow> pd_error + ('a, 'b) bar_chart" where
  "plot_bar stacked t =
     (if frame_index t = [] \<or> frame_columns t = [] then Inl TypeError
      else Inr \<lparr>chart_stacked = stacked,
                chart_series =
                  map (\<lambda>j. \<lparr>bar_label = frame_columns t ! j,
                            bar_color = map tab20 (linspace01 (length (frame_columns t))) ! j,
                            bar_heights = zip (frame_index t) (map (\<lambda>row. row ! j) (frame_values t))\<rparr>)
                    [0..<length (frame_columns t)]\<rparr>)"

text \<open>\<open>plt.legend\<close>: one entry per bar series, its label with its colour.\<close>

definition legend :: "('a, 'b) bar_chart \<Rightarrow> ('b \<times> nat) list" where
  "legend chart = map (\<lambda>s. (bar_label s, bar_color s)) (chart_series chart)"

text \<open>
  The pivot table of \<open>plot_resolved_items_per_month\<close> and of
  \<open>plot_grouped_resolved_items_per_month\<close>: months as rows, engineers as columns.
\<close>

definition month_pivot_table :: "resolved_row dataframe \<Rightarrow> pd_error + (pystr, pystr, real) frame" where
  "month_pivot_table df =
     (case pivot year_month closed_by resolved_count df of
        Inl e \<Rightarrow> Inl e
      | Inr t \<Rightarrow> Inr (fillna 0 t))"

text \<open>
  The pivot table of \<open>plot_engineer_grouped_resolved_items\<close>: engineers as rows, months
  as columns.
\<close>

definition engineer_pivot_table :: "resolved_row dataframe \<Rightarrow> pd_error + (pystr, pystr, real) frame" where
  "engineer_pivot_table df =
     (case pivot closed_by year_month resolved_count df of
        Inl e \<Rightarrow> Inl e
      | Inr t \<Rightarrow> Inr (fillna 0 t))"

definition plot_resolved_items_per_month ::
  "resolved_row dataframe \<Rightarrow> pd_error + (pystr, pystr) bar_chart" where
  "plot_resolved_items_per_month df =
     (case month_pivot_table df of
        Inl e \<Rightarrow> Inl e
      | Inr pivot_table \<Rightarrow> plot_bar True pivot_table)"

definition plot_grouped_resolved_items_per_month ::
  "resolved_row dataframe \<Rightarrow> pd_error + (pystr, pystr) bar_chart" where
  "plot_grouped_resolved_items_per_month df =
     (case month_pivot_table df of
        Inl e \<Rightarrow> Inl e
      | Inr pivot_table \<Rightarrow> plot_bar False pivot_table)"

definition plot_engineer_grouped_resolved_items ::
  "resolved_row dataframe \<Rightarrow> pd_error + (pystr, pystr) bar_chart" where
  "plot_engineer_grouped_resolved_items df =
     (case engineer_pivot_table df of
        Inl e \<Rightarrow> Inl e
      | Inr pivot_table \<Rightarrow> plot_bar False pivot_table)"

section \<open>Sample inputs\<close>

text \<open>Concrete inputs on which the theorems below are instantiated.\<close>

definition sample_rng :: rng where
  "sample_rng k = real (k mod 8) / 8"

definition sample_projects :: "project_row list" where
  "sample_projects =
     [\<lparr>estimated_effort = ascii ''Days'', estimated_impact = ascii ''High'', priority = ascii ''P2''\<rparr>,
      \<lparr>estimated_effort = ascii ''Years'', estimated_impact = ascii ''Low'', priority = ascii ''P2''\<rparr>,
      \<lparr>estimated_effort = ascii ''Weeks'', estimated_impact = ascii ''Medium'', priority = ascii ''P1''\<rparr>]"

text \<open>
  The default \<open>jitter_amount\<close>: the literal \<open>0.1\<close> denotes the float64 nearest to one
  tenth.
\<close>

definition tenth :: real where
  "tenth = 3602879701896397 / 2 ^ 55"

definition zero_rng :: rng where
  "zero_rng k = 0"

definition resolved :: "string \<Rightarrow> string \<Rightarrow> int \<Rightarrow> resolved_row" where
  "resolved engineer month n =
     \<lparr>year_month = ascii month, closed_by = ascii engineer, resolved_count = n\<rparr>"

definition scenario_triples :: "resolved_row dataframe" where
  "scenario_triples =
     read_csv [resolved ''A'' ''Jan'' 3, resolved ''A'' ''Jan'' 2, resolved ''B'' ''Feb'' 5]"

definition unique_triples :: "resolved_row dataframe" where
  "unique_triples = read_csv [resolved ''A'' ''Jan'' 5, resolved ''B'' ''Feb'' 5]"

definition shuffled_triples :: "resolved_row dataframe" where
  "shuffled_triples =
     read_csv [resolved ''B'' ''Mar'' 1, resolved ''A'' ''Feb'' 2, resolved ''B'' ''Jan'' 7]"

text \<open>A count beyond \<open>2 ^ 53\<close>, in a grid with missing cells.\<close>

definition huge_triples :: "resolved_row dataframe" where
  "huge_triples = read_csv [resolved ''A'' ''Jan'' (2 ^ 53 + 1), resolved ''B'' ''Feb'' 1]"

text \<open>Twenty-one engineers, named \<open>A\<close> to \<open>U\<close>, with one resolved item each in one month.\<close>

definition crowd :: "resolved_row dataframe" where
  "crowd = read_csv (map (\<lambda>e. resolved [e] ''Jan'' 1) ''ABCDEFGHIJKLMNOPQRSTU'')"

section \<open>Properties of the category mappers\<close>

lemma dict_get_absent: "k \<notin> set (dict_keys d) \<Longrightarrow> dict_get d k dflt = dflt"
  by (simp add: dict_get_def dict_keys_def map_of_eq_None_iff [THEN iffD2])

lemma dict_get_range: "dict_get d k dflt \<in> insert dflt (snd ` set d)"
  by (auto simp: dict_get_def split: option.splits dest: map_of_SomeD intro: rev_image_eqI)

text \<open>
  C2.  A label that is not a key of the table is mapped to the fixed default:
  \<open>get_priority_text\<close> gives \<open>unknown\<close> and \<open>get_staging_text\<close> gives \<open>-----\<close>; both
  functions are total, so no label raises.  A known label is mapped to its glyph string:
  \<open>Triage\<close> gives one filled block followed by four empty ones.
\<close>

theorem category_text_default:
  "(lbl \<notin> set (dict_keys PRIORITY_TEXT_REPRESENTATION) \<longrightarrow>
      get_priority_text lbl = ascii ''unknown'') \<and>
   (staging \<notin> set (dict_keys STAGING_TEXT_REPRESENTATION) \<longrightarrow>
      get_staging_text staging = ascii ''-----'') \<and>
   (\<forall>(k, v) \<in> set STAGING_TEXT_REPRESENTATION. get_staging_text k = v) \<and>
   (\<forall>(k, v) \<in> set PRIORITY_TEXT_REPRESENTATION. get_priority_text k = v) \<and>
   get_staging_text (ascii ''Triage'') = [9648, 9649, 9649, 9649, 9649]"
proof (intro conjI impI)
  assume "lbl \<notin> set (dict_keys PRIORITY_TEXT_REPRESENTATION)"
  then show "get_priority_text lbl = ascii ''unknown''"
    unfolding get_priority_text_def by (rule dict_get_absent)
next
  assume "staging \<notin> set (dict_keys STAGING_TEXT_REPRESENTATION)"
  then show "get_staging_text staging = ascii ''-----''"
    unfolding get_staging_text_def by (rule dict_get_absent)
next
  show "\<forall>(k, v) \<in> set STAGING_TEXT_REPRESENTATION. get_staging_text k = v"
    by (simp add: get_staging_text_def dict_get_def STAGING_TEXT_REPRESENTATION_def ascii_def)
next
  show "\<forall>(k, v) \<in> set PRIORITY_TEXT_REPRESENTATION. get_priority_text k = v"
    by (simp add: get_priority_text_def dict_get_def PRIORITY_TEXT_REPRESENTATION_def ascii_def)
next
  show "get_staging_text (ascii ''Triage'') = [9648, 9649, 9649, 9649, 9649]"
    by (simp add: get_staging_text_def dict_get_def STAGING_TEXT_REPRESENTATION_def ascii_def
        FILLED_def HOLLOW_def)
qed

theorem category_text_default_witness:
  "ascii ''P9'' \<notin> set (dict_keys PRIORITY_TEXT_REPRESENTATION) \<and>
   get_priority_text (ascii ''P9'') = ascii ''unknown'' \<and>
   ascii ''Done'' \<notin> set (dict_keys STAGING_TEXT_REPRESENTATION) \<and>
   get_staging_text (ascii ''Done'') = ascii ''-----'' \<and>
   (ascii ''P2'', ascii ''P2 '' @ [128680]) \<in> set PRIORITY_TEXT_REPRESENTATION \<and>
   get_priority_text (ascii ''P2'') = ascii ''P2 '' @ [128680] \<and>
   (ascii ''Roll-out'', [9648, 9648, 9648, 9648, 9648]) \<in> set STAGING_TEXT_REPRESENTATION \<and>
   get_staging_text (ascii ''Roll-out'') = [9648, 9648, 9648, 9648, 9648]"
proof -
  have p: "ascii ''P9'' \<notin> set (dict_keys PRIORITY_TEXT_REPRESENTATION)"
    by (simp add: dict_keys_def PRIORITY_TEXT_REPRESENTATION_def ascii_def)
  have s: "ascii ''Done'' \<notin> set (dict_keys STAGING_TEXT_REPRESENTATION)"
    by (simp add: dict_keys_def STAGING_TEXT_REPRESENTATION_def ascii_def)
  have pk: "(ascii ''P2'', ascii ''P2 '' @ [128680]) \<in> set PRIORITY_TEXT_REPRESENTATION"
    by (simp add: PRIORITY_TEXT_REPRESENTATION_def)
  have sk: "(ascii ''Roll-out'', [9648, 9648, 9648, 9648, 9648]) \<in> set STAGING_TEXT_REPRESENTATION"
    by (simp add: STAGING_TEXT_REPRESENTATION_def FILLED_def HOLLOW_def)
  note inst = category_text_default [of "ascii ''P9''" "ascii ''Done''"]
  have 1: "get_priority_text (ascii ''P9'') = ascii ''unknown''"
    using inst [THEN conjunct1] p by (rule mp)
  have 2: "get_staging_text (ascii ''Done'') = ascii ''-----''"
    using inst [THEN conjunct2, THEN conjunct1] s by (rule mp)
  have 3: "get_priority_text (ascii ''P2'') = ascii ''P2 '' @ [128680]"
    using bspec [OF inst [THEN conjunct2, THEN conjunct2, THEN conjunct2, THEN conjunct1] pk]
    by simp
  have 4: "get_staging_text (ascii ''Roll-out'') = [9648, 9648, 9648, 9648, 9648]"
    using bspec [OF inst [THEN conjunct2, THEN conjunct2, THEN conjunct1] sk]
    by simp
  show ?thesis
    using p 1 s 2 pk 3 sk 4 by - (intro conjI; assumption)
qed

text \<open>
  C9.  Whatever the input, \<open>get_staging_text\<close> returns a string of exactly five
  characters: each of the five table values and the fallback has length five.
\<close>

theorem staging_text_length: "length (get_staging_text staging) = 5"
proof -
  have "get_staging_text staging
          \<in> insert (ascii ''-----'') (snd ` set STAGING_TEXT_REPRESENTATION)"
    unfolding get_staging_text_def by (rule dict_get_range)
  then show ?thesis
    by (auto simp: STAGING_TEXT_REPRESENTATION_def ascii_def)
qed

theorem staging_text_length_witness:
  "length (get_staging_text (ascii ''Beta Test'')) = 5 \<and>
   length (get_staging_text (ascii ''Unheard of'')) = 5 \<and>
   length (get_staging_text []) = 5"
  by (intro conjI staging_text_length)

section \<open>Properties of float64 rounding\<close>

lemma round_half_even_of_int [simp]: "round_half_even (of_int n) = n"
  by (simp add: round_half_even_def)

lemma round_half_even_between:
  "\<lfloor>y\<rfloor> \<le> round_half_even y \<and> round_half_even y \<le> \<lfloor>y\<rfloor> + 1"
  by (simp add: round_half_even_def Let_def)

lemma round_half_even_mono:
  assumes "x \<le> y"
  shows "round_half_even x \<le> round_half_even y"
proof (cases "\<lfloor>x\<rfloor> = \<lfloor>y\<rfloor>")
  case True
  with assms show ?thesis
    by (auto simp: round_half_even_def Let_def)
next
  case False
  with assms have "\<lfloor>x\<rfloor> + 1 \<le> \<lfloor>y\<rfloor>"
    using floor_mono [of x y] by linarith
  with round_half_even_between [of x] round_half_even_between [of y] show ?thesis
    by linarith
qed

lemma round_half_even_ge: "of_int a \<le> y \<Longrightarrow> a \<le> round_half_even y"
  using round_half_even_mono [of "of_int a" y] by simp

lemma round_half_even_le: "y \<le> of_int b \<Longrightarrow> round_half_even y \<le> b"
  using round_half_even_mono [of y "of_int b"] by simp

lemma ulp_pos [simp]: "0 < ulp x"
  by (simp add: ulp_def)

lemma ulp_minus [simp]: "ulp (- x) = ulp x"
  by (simp add: ulp_def float64_exponent_def)

lemma round64_zero [simp]: "round64 0 = 0"
  by (simp add: round64_def)

lemma round64_minus: "round64 (- x) = - round64 x"
  by (simp add: round64_def sgn_minus)

lemma round64_nonneg:
  assumes "0 \<le> x"
  shows "0 \<le> round64 x"
proof (cases "x = 0")
  case True
  then show ?thesis by simp
next
  case False
  with assms have "0 < x" by simp
  then have "0 \<le> \<bar>x\<bar> / ulp x"
    by (simp add: less_imp_le)
  then have "0 \<le> round_half_even (\<bar>x\<bar> / ulp x)"
    using round_half_even_ge [of 0] by simp
  with \<open>0 < x\<close> show ?thesis
    by (simp add: round64_def less_imp_le)
qed

lemma two_powr_of_int: "(2::real) powr (of_int k) = 2 powi k"
  by (simp add: powr_real_of_int')

lemma float64_exponent_mono:
  assumes "0 < x" and "x \<le> y"
  shows "float64_exponent x \<le> float64_exponent y"
proof -
  from assms have "log 2 \<bar>x\<bar> \<le> log 2 \<bar>y\<bar>"
    by simp
  then have "\<lfloor>log 2 \<bar>x\<bar>\<rfloor> \<le> \<lfloor>log 2 \<bar>y\<bar>\<rfloor>"
    by (rule floor_mono)
  then show ?thesis
    by (simp add: float64_exponent_def)
qed

lemma powi_le_abs:
  assumes "x \<noteq> 0"
  shows "2 powi \<lfloor>log 2 \<bar>x\<bar>\<rfloor> \<le> \<bar>x\<bar>" and "\<bar>x\<bar> < 2 powi (\<lfloor>log 2 \<bar>x\<bar>\<rfloor> + 1)"
proof -
  from assms have pos: "0 < \<bar>x\<bar>"
    by simp
  have "2 powr (of_int \<lfloor>log 2 \<bar>x\<bar>\<rfloor>) \<le> \<bar>x\<bar> \<and> \<bar>x\<bar> < 2 powr (of_int (\<lfloor>log 2 \<bar>x\<bar>\<rfloor> + 1))"
    using floor_log_eq_powr_iff [OF pos, of 2 "\<lfloor>log 2 \<bar>x\<bar>\<rfloor>"] by simp
  then show "2 powi \<lfloor>log 2 \<bar>x\<bar>\<rfloor> \<le> \<bar>x\<bar>" and "\<bar>x\<bar> < 2 powi (\<lfloor>log 2 \<bar>x\<bar>\<rfloor> + 1)"
    by (simp_all only: two_powr_of_int)
qed

lemma float64_exponent_eqI:
  assumes "2 powi e \<le> \<bar>x\<bar>" and "\<bar>x\<bar> < 2 powi (e + 1)" and "- 1022 \<le> e"
  shows "float64_exponent x = e"
proof -
  from assms(1) have pos: "0 < \<bar>x\<bar>"
    by (smt (verit) zero_less_power_int)
  have "2 powr (of_int e) \<le> \<bar>x\<bar> \<and> \<bar>x\<bar> < 2 powr (of_int (e + 1))"
    using assms(1,2) by (simp only: two_powr_of_int)
  then have "\<lfloor>log 2 \<bar>x\<bar>\<rfloor> = e"
    using floor_log_eq_powr_iff [OF pos, of 2 e] by simp
  with assms(3) show ?thesis
    by (simp add: float64_exponent_def)
qed


lemma abs_less_exponent:
  assumes "x \<noteq> 0"
  shows "\<bar>x\<bar> < 2 powi (float64_exponent x + 1)"
proof -
  have "\<lfloor>log 2 \<bar>x\<bar>\<rfloor> + 1 \<le> float64_exponent x + 1"
    by (simp add: float64_exponent_def)
  then have "(2::real) powi (\<lfloor>log 2 \<bar>x\<bar>\<rfloor> + 1) \<le> 2 powi (float64_exponent x + 1)"
    by (intro power_int_increasing) simp_all
  with powi_le_abs(2) [OF assms] show ?thesis
    by linarith
qed

lemma exponent_le_abs:
  assumes "x \<noteq> 0" and "- 1022 < float64_exponent x"
  shows "2 powi (float64_exponent x) \<le> \<bar>x\<bar>"
proof -
  from assms(2) have "float64_exponent x = \<lfloor>log 2 \<bar>x\<bar>\<rfloor>"
    by (simp add: float64_exponent_def max_def split: if_splits)
  with powi_le_abs(1) [OF assms(1)] show ?thesis
    by simp
qed

lemma ulp_scale: "2 powi k = 2 powi (k - float64_exponent x + 52) * ulp x"
  by (simp add: ulp_def flip: power_int_add)

lemma round64_le_next_power:
  assumes "0 < x"
  shows "round64 x \<le> 2 powi (float64_exponent x + 1)"
proof -
  from assms have x: "x \<noteq> 0" "\<bar>x\<bar> = x" "sgn x = 1"
    by simp_all
  have "x < 2 powi (float64_exponent x + 1)"
    using abs_less_exponent [OF x(1)] x(2) by simp
  also have "\<dots> = 2 powi 53 * ulp x"
    using ulp_scale [of "float64_exponent x + 1" x] by simp
  finally have "x / ulp x \<le> 2 powi 53"
    by (simp add: pos_divide_le_eq less_imp_le)
  then have "x / ulp x \<le> of_int (2 ^ 53)"
    by simp
  then have "round_half_even (x / ulp x) \<le> 2 ^ 53"
    by (rule round_half_even_le)
  then have "of_int (round_half_even (x / ulp x)) \<le> (2::real) powi 53"
    by (metis of_int_le_iff of_int_numeral of_int_power power_int_numeral numeral_One of_int_1 power_int_of_nat)
  then have "of_int (round_half_even (x / ulp x)) * ulp x \<le> 2 powi 53 * ulp x"
    by (intro mult_right_mono) (simp_all add: less_imp_le)
  also have "\<dots> = 2 powi (float64_exponent x + 1)"
    using ulp_scale [of "float64_exponent x + 1" x] by simp
  finally show ?thesis
    using x by (simp add: round64_def)
qed

lemma round64_ge_power:
  assumes "0 < x" and "- 1022 < float64_exponent x"
  shows "2 powi (float64_exponent x) \<le> round64 x"
proof -
  from assms have x: "x \<noteq> 0" "\<bar>x\<bar> = x" "sgn x = 1"
    by simp_all
  have "2 powi 52 * ulp x = 2 powi (float64_exponent x)"
    using ulp_scale [of "float64_exponent x" x] by simp
  also have "\<dots> \<le> x"
    using exponent_le_abs [OF x(1) assms(2)] x(2) by simp
  finally have "of_int (2 ^ 52) \<le> x / ulp x"
    by (simp add: pos_le_divide_eq)
  then have "2 ^ 52 \<le> round_half_even (x / ulp x)"
    by (rule round_half_even_ge)
  then have "(2::real) powi 52 \<le> of_int (round_half_even (x / ulp x))"
    by (metis of_int_le_iff of_int_numeral of_int_power power_int_numeral numeral_One of_int_1 power_int_of_nat)
  then have "2 powi 52 * ulp x \<le> of_int (round_half_even (x / ulp x)) * ulp x"
    by (intro mult_right_mono) (simp_all add: less_imp_le)
  moreover have "2 powi (float64_exponent x) = 2 powi 52 * ulp x"
    using ulp_scale [of "float64_exponent x" x] by simp
  ultimately have "2 powi (float64_exponent x) \<le> of_int (round_half_even (x / ulp x)) * ulp x"
    by (simp only:)
  then show ?thesis
    using x by (simp add: round64_def)
qed

lemma round64_mono_pos:
  assumes "0 < x" and "x \<le> y"
  shows "round64 x \<le> round64 y"
proof (cases "float64_exponent x = float64_exponent y")
  case True
  then have u: "ulp x = ulp y"
    by (simp add: ulp_def)
  from assms have "x / ulp y \<le> y / ulp y"
    by (simp add: divide_right_mono less_imp_le)
  then have "round_half_even (x / ulp y) \<le> round_half_even (y / ulp y)"
    by (rule round_half_even_mono)
  then have "of_int (round_half_even (x / ulp y)) * ulp y \<le> of_int (round_half_even (y / ulp y)) * ulp y"
    by (intro mult_right_mono) (simp_all add: less_imp_le)
  with assms u show ?thesis
    by (simp add: round64_def)
next
  case False
  with float64_exponent_mono [OF assms] have lt: "float64_exponent x + 1 \<le> float64_exponent y"
    by simp
  have "- 1022 \<le> float64_exponent x"
    by (simp add: float64_exponent_def)
  with lt have big: "- 1022 < float64_exponent y"
    by simp
  from assms have y: "0 < y"
    by simp
  have "round64 x \<le> 2 powi (float64_exponent x + 1)"
    by (rule round64_le_next_power [OF assms(1)])
  also have "\<dots> \<le> 2 powi (float64_exponent y)"
    using lt by (intro power_int_increasing) simp_all
  also have "\<dots> \<le> round64 y"
    by (rule round64_ge_power [OF y big])
  finally show ?thesis .
qed

lemma round64_mono:
  assumes "x \<le> y"
  shows "round64 x \<le> round64 y"
proof -
  consider "0 < x" | "x \<le> 0" "0 \<le> y" | "y < 0"
    using assms by linarith
  then show ?thesis
  proof cases
    case 1
    then show ?thesis
      using assms by (rule round64_mono_pos)
  next
    case 2
    have "round64 x = - round64 (- x)"
      by (simp add: round64_minus)
    with round64_nonneg [of "- x"] round64_nonneg [of y] 2 show ?thesis
      by simp
  next
    case 3
    with assms have "0 < - y" "- y \<le> - x"
      by simp_all
    then have "round64 (- y) \<le> round64 (- x)"
      by (rule round64_mono_pos)
    then show ?thesis
      by (simp add: round64_minus)
  qed
qed

lemma round64_eval:
  assumes "2 powi e \<le> \<bar>x\<bar>" and "\<bar>x\<bar> < 2 powi (e + 1)" and "- 1022 \<le> e"
  shows "round64 x = sgn x * (of_int (round_half_even (\<bar>x\<bar> / 2 powi (e - 52))) * 2 powi (e - 52))"
proof -
  from assms(1) have "x \<noteq> 0"
    by (smt (verit) zero_less_power_int abs_zero)
  with float64_exponent_eqI [OF assms] show ?thesis
    by (simp add: round64_def ulp_def)
qed


lemma round64_multiple:
  assumes "x = of_int k * ulp x"
  shows "round64 x = x"
proof (cases "x = 0")
  case True
  then show ?thesis by simp
next
  case False
  define u where "u = ulp x"
  have u: "0 < u"
    by (simp add: u_def)
  from assms have x: "x = of_int k * u"
    by (simp add: u_def)
  from u have "\<bar>x\<bar> = of_int \<bar>k\<bar> * u"
    by (simp add: x abs_mult)
  with u have "\<bar>x\<bar> / u = of_int \<bar>k\<bar>"
    by simp
  then have "round_half_even (\<bar>x\<bar> / u) = \<bar>k\<bar>"
    by (simp only: round_half_even_of_int)
  then have "round64 x = sgn x * (of_int \<bar>k\<bar> * u)"
    using False by (simp add: round64_def u_def)
  also have "\<dots> = sgn x * \<bar>x\<bar>"
    using \<open>\<bar>x\<bar> = of_int \<bar>k\<bar> * u\<close> by simp
  also have "\<dots> = x"
    by (simp add: sgn_mult_abs)
  finally show ?thesis .
qed

lemma round64_exact:
  assumes k: "\<bar>k\<bar> < 2 ^ 53" and j: "- 1074 \<le> j"
  shows "round64 (of_int k * 2 powi j) = of_int k * 2 powi j"
proof (cases "k = 0")
  case True
  then show ?thesis by simp
next
  case False
  let ?x = "of_int k * (2::real) powi j"
  from False have x: "?x \<noteq> 0"
    by simp
  have "\<bar>?x\<bar> = of_int \<bar>k\<bar> * 2 powi j"
    by (simp add: abs_mult)
  also have "\<dots> < of_int (2 ^ 53) * 2 powi j"
    using k by (intro mult_strict_right_mono) (simp_all flip: of_int_less_iff)
  also have "\<dots> = 2 powi (j + 53)"
    by (simp add: power_int_add)
  finally have up: "\<bar>?x\<bar> < 2 powi (j + 53)" .
  have "2 powi \<lfloor>log 2 \<bar>?x\<bar>\<rfloor> < (2::real) powi (j + 53)"
    using powi_le_abs(1) [OF x] up by linarith
  then have "\<lfloor>log 2 \<bar>?x\<bar>\<rfloor> < j + 53"
    using power_int_increasing [of "j + 53" "\<lfloor>log 2 \<bar>?x\<bar>\<rfloor>" "2::real"] by force
  with j have e: "float64_exponent ?x \<le> j + 52"
    by (simp add: float64_exponent_def)
  define n where "n = nat (j + 52 - float64_exponent ?x)"
  from e have n: "int n = j + 52 - float64_exponent ?x"
    by (simp add: n_def)
  have "(2::real) powi j = 2 powi (int n) * ulp ?x"
    unfolding n ulp_def by (simp flip: power_int_add)
  then have "?x = of_int (k * 2 ^ n) * ulp ?x"
    by simp
  then show ?thesis
    by (rule round64_multiple)
qed

lemma round64_of_int:
  assumes "\<bar>n\<bar> \<le> 2 ^ 53"
  shows "round64 (of_int n) = of_int n"
proof (cases "\<bar>n\<bar> = 2 ^ 53")
  case True
  then have "n = 2 ^ 53 \<or> n = - (2 ^ 53)"
    by linarith
  then have "(of_int n :: real) = of_int (n div 2) * 2 powi 1"
    by auto
  moreover have "\<bar>n div 2\<bar> < 2 ^ 53"
    using \<open>n = 2 ^ 53 \<or> n = - (2 ^ 53)\<close> by auto
  ultimately show ?thesis
    using round64_exact [of "n div 2" 1] by simp
next
  case False
  with assms have "\<bar>n\<bar> < 2 ^ 53"
    by simp
  then show ?thesis
    using round64_exact [of n 0] by simp
qed

lemma is_float64I: "\<bar>k\<bar> < 2 ^ 53 \<Longrightarrow> - 1074 \<le> j \<Longrightarrow> x = of_int k * 2 powi j \<Longrightarrow> is_float64 x"
  by (simp add: is_float64_def round64_exact)

lemma round64_half [simp]: "round64 (1 / 2) = 1 / 2" "round64 (- (1 / 2)) = - (1 / 2)"
  using round64_exact [of 1 "- 1"] round64_exact [of "- 1" "- 1"] by simp_all

lemma round64_one [simp]: "round64 1 = 1"
  using round64_exact [of 1 0] by simp

lemma round_half_even_eval:
  "of_int f \<le> y \<Longrightarrow> y < of_int f + 1 / 2 \<Longrightarrow> round_half_even y = f"
  "of_int f + 1 / 2 < y \<Longrightarrow> y < of_int f + 1 \<Longrightarrow> round_half_even y = f + 1"
  "y = of_int f + 1 / 2 \<Longrightarrow> even f \<Longrightarrow> round_half_even y = f"
  "y = of_int f + 1 / 2 \<Longrightarrow> odd f \<Longrightarrow> round_half_even y = f + 1"
proof -
  show "round_half_even y = f" if "of_int f \<le> y" "y < of_int f + 1 / 2"
  proof -
    from that have "\<lfloor>y\<rfloor> = f" by linarith
    with that show ?thesis by (simp add: round_half_even_def)
  qed
  show "round_half_even y = f + 1" if "of_int f + 1 / 2 < y" "y < of_int f + 1"
  proof -
    from that have "\<lfloor>y\<rfloor> = f" by linarith
    with that show ?thesis by (simp add: round_half_even_def)
  qed
  show "round_half_even y = f" if "y = of_int f + 1 / 2" "even f"
  proof -
    from that have "\<lfloor>y\<rfloor> = f" by linarith
    with that show ?thesis by (simp add: round_half_even_def)
  qed
  show "round_half_even y = f + 1" if "y = of_int f + 1 / 2" "odd f"
  proof -
    from that have "\<lfloor>y\<rfloor> = f" by linarith
    with that show ?thesis by (simp add: round_half_even_def)
  qed
qed

lemma half_tenth: "round64 (- (tenth / 2)) = - (tenth / 2)"
  using round64_exact [of "- 3602879701896397" "- 56"] by (simp add: tenth_def)

lemma one_minus_half_tenth: "round64 (1 - tenth / 2) = 4278419646001971 / 2 ^ 52"
proof -
  define x :: real where "x = 68454714336031539 / 2 ^ 56"
  have x: "1 - tenth / 2 = x"
    by (simp add: tenth_def x_def)
  have a: "\<bar>x\<bar> = x" "sgn x = 1"
    by (simp_all add: x_def)
  have r: "round_half_even (x / 2 powi (- 1 - 52)) = 8556839292003942"
    by (rule round_half_even_eval(1)) (simp_all add: x_def)
  have "round64 x = sgn x * (of_int (round_half_even (\<bar>x\<bar> / 2 powi (- 1 - 52))) * 2 powi (- 1 - 52))"
    by (rule round64_eval) (simp_all add: a, simp_all add: x_def)
  then have "round64 x = 8556839292003942 * 2 powi (- 1 - 52)"
    unfolding a r by simp
  then show ?thesis
    unfolding x by simp
qed

section \<open>Properties of the jitter generator\<close>

lemma length_rand: "length (fst (rand n g)) = n"
  by (simp add: rand_def)

lemma nth_rand: "k < n \<Longrightarrow> fst (rand n g) ! k = g k"
  by (simp add: rand_def)

lemma length_add_jitter: "length (fst (add_jitter series m g)) = length series"
  by (simp add: add_jitter_def rand_def)

lemma nth_add_jitter:
  "k < length series \<Longrightarrow>
   fst (add_jitter series m g) ! k =
     (fst (series ! k),
      float_add (snd (series ! k)) (float_mul (float_sub (Some (g k)) (Some 0.5)) (Some m)))"
  by (simp add: add_jitter_def rand_def split_def)

lemma labels_add_jitter: "map fst (fst (add_jitter series m g)) = map fst series"
  by (rule nth_equalityI) (simp_all add: length_add_jitter nth_add_jitter)

lemma jitter_offset_bounds:
  assumes "0 \<le> r" and "r < 1" and "0 \<le> m" and "is_float64 (m / 2)"
  shows "- (m / 2) \<le> round64 (round64 (r - 1 / 2) * m)"
    and "round64 (round64 (r - 1 / 2) * m) \<le> m / 2"
proof -
  let ?a = "round64 (r - 1 / 2)"
  have "round64 (- (1 / 2)) \<le> ?a"
    using assms(1) by (intro round64_mono) simp
  moreover have "?a \<le> round64 (1 / 2)"
    using assms(2) by (intro round64_mono) simp
  ultimately have a: "- (1 / 2) \<le> ?a" "?a \<le> 1 / 2"
    by simp_all
  from a(1) assms(3) have "- (1 / 2) * m \<le> ?a * m"
    by (rule mult_right_mono)
  then have "round64 (- (m / 2)) \<le> round64 (?a * m)"
    by (intro round64_mono) simp
  with assms(4) show "- (m / 2) \<le> round64 (?a * m)"
    by (simp add: round64_minus is_float64_def)
  from a(2) assms(3) have "?a * m \<le> 1 / 2 * m"
    by (rule mult_right_mono)
  then have "round64 (?a * m) \<le> round64 (m / 2)"
    by (intro round64_mono) simp
  with assms(4) show "round64 (?a * m) \<le> m / 2"
    by (simp add: is_float64_def)
qed

text \<open>
  C3, as amended.  Let the draws come from the half-open unit interval, let the jitter
  amount \<open>m \<ge> 0\<close> have a half \<open>m / 2\<close> that is a float64 (every \<open>m\<close> that is zero or at
  least \<open>2 ^ -1021\<close> has), and let the element \<open>v\<close> be a float64, all below the end of the
  format.  Then the output has the length of the input and holds, at the same position
  and with the same row label, a number between the float64 roundings of \<open>v - m / 2\<close> and
  of \<open>v + m / 2\<close>; with \<open>m = 0\<close> it holds \<open>v\<close> itself.
\<close>

theorem add_jitter_rounded_bounds:
  assumes "uniform01 g" and "0 \<le> m" and "is_float64 (m / 2)" and "is_float64 v"
    and "\<bar>v\<bar> + m \<le> 2 ^ 1023"
    and "k < length series" and "snd (series ! k) = Some v"
  shows "length (fst (add_jitter series m g)) = length series \<and>
         (\<exists>w. fst (add_jitter series m g) ! k = (fst (series ! k), Some w) \<and>
              round64 (v - m / 2) \<le> w \<and> w \<le> round64 (v + m / 2) \<and> (m = 0 \<longrightarrow> w = v))"
proof -
  let ?y = "round64 (round64 (g k - 1 / 2) * m)"
  from assms(1) have g: "0 \<le> g k" "g k < 1"
    by (simp_all add: uniform01_def)
  note y = jitter_offset_bounds [OF g assms(2,3)]
  have out: "fst (add_jitter series m g) ! k = (fst (series ! k), Some (round64 (v + ?y)))"
    using assms(6,7) by (simp add: nth_add_jitter float_add_def float_mul_def float_sub_def)
  have lo: "round64 (v - m / 2) \<le> round64 (v + ?y)"
    using y(1) by (intro round64_mono) simp
  have hi: "round64 (v + ?y) \<le> round64 (v + m / 2)"
    using y(2) by (intro round64_mono) simp
  have zero: "m = 0 \<longrightarrow> round64 (v + ?y) = v"
    using assms(4) by (simp add: is_float64_def)
  from out lo hi zero show ?thesis
    by (simp add: length_add_jitter)
qed

theorem add_jitter_rounded_bounds_witness:
  "uniform01 sample_rng \<and> 0 \<le> tenth \<and> is_float64 (tenth / 2) \<and> is_float64 5 \<and>
   \<bar>5\<bar> + tenth \<le> 2 ^ 1023 \<and>
   (\<exists>w. fst (add_jitter [(0, Some 3), (1, None), (2, Some 5)] tenth sample_rng) ! 2 = (2, Some w) \<and>
        round64 (5 - tenth / 2) \<le> w \<and> w \<le> round64 (5 + tenth / 2)) \<and>
   fst (add_jitter [(0, Some 3), (1, None), (2, Some 5)] 0 sample_rng) ! 2 = (2, Some 5)"
proof -
  have u: "uniform01 sample_rng"
    by (simp add: uniform01_def sample_rng_def)
  have t: "0 \<le> tenth" "\<bar>5\<bar> + tenth \<le> 2 ^ 1023"
    by (simp_all add: tenth_def)
  have h: "is_float64 (tenth / 2)"
    by (rule is_float64I [of 3602879701896397 "- 56"]) (simp_all add: tenth_def)
  have f: "is_float64 5"
    by (rule is_float64I [of 5 0]) simp_all
  have z: "is_float64 (0 / 2)"
    by (simp add: is_float64_def)
  have 1: "\<exists>w. fst (add_jitter [(0, Some 3), (1, None), (2, Some 5)] tenth sample_rng) ! 2 = (2, Some w) \<and>
        round64 (5 - tenth / 2) \<le> w \<and> w \<le> round64 (5 + tenth / 2)"
    using add_jitter_rounded_bounds [OF u t(1) h f t(2), of 2 "[(0, Some 3), (1, None), (2, Some 5)]"]
    by auto
  have 2: "fst (add_jitter [(0, Some 3), (1, None), (2, Some 5)] 0 sample_rng) ! 2 = (2, Some 5)"
    using add_jitter_rounded_bounds [OF u order_refl z f, of 2 "[(0, Some 3), (1, None), (2, Some 5)]"]
    by auto
  from u t h f 1 2 show ?thesis
    by - (intro conjI; assumption)
qed

text \<open>
  The interval of C3 itself, with the exact endpoints \<open>v - m / 2\<close> and \<open>v + m / 2\<close>, is
  left already at the default jitter amount: for the element 1 and the draw 0 the sum is
  rounded downwards to a float64 below \<open>1 - m / 2\<close>.
\<close>

theorem default_jitter_leaves_interval:
  "fst (add_jitter [(0, Some 1)] tenth zero_rng) = [(0, Some (4278419646001971 / 2 ^ 52))] \<and>
   4278419646001971 / 2 ^ 52 < 1 - tenth / 2 \<and>
   0 \<le> tenth \<and> zero_rng 0 = 0"
proof -
  have "fst (add_jitter [(0, Some 1)] tenth zero_rng) = [(0, Some (round64 (1 - tenth / 2)))]"
    by (simp add: add_jitter_def rand_def float_add_def float_mul_def float_sub_def zero_rng_def
        half_tenth)
  then show ?thesis
    by (simp add: one_minus_half_tenth) (simp add: tenth_def zero_rng_def)
qed

section \<open>Properties of the scatter plot\<close>

lemma series_of_plot:
  "s \<in> set (fst (create_scatter_plot df d m g)) \<Longrightarrow>
   (scatter_label s, scatter_c s) \<in> set d \<and>
   (\<exists>g1 g2.
      scatter_x s = fst (add_jitter (column numerical_effort
                      (select_rows (\<lambda>r. priority r = scatter_label s) df)) m g1) \<and>
      scatter_y s = fst (add_jitter (column numerical_impact
                      (select_rows (\<lambda>r. priority r = scatter_label s) df)) m g2))"
proof (induction d arbitrary: g)
  case Nil
  then show ?case by simp
next
  case (Cons item d)
  obtain key colr where item: "item = (key, colr)"
    by (cases item)
  let ?subset = "select_rows (\<lambda>r. priority r = key) df"
  let ?g1 = "snd (add_jitter (column numerical_effort ?subset) m g)"
  let ?g2 = "snd (add_jitter (column numerical_impact ?subset) m ?g1)"
  let ?head = "\<lparr>scatter_x = fst (add_jitter (column numerical_effort ?subset) m g),
                scatter_y = fst (add_jitter (column numerical_impact ?subset) m ?g1),
                scatter_c = colr, scatter_label = key\<rparr>"
  have unfold: "fst (create_scatter_plot df (item # d) m g) =
                  ?head # fst (create_scatter_plot df d m ?g2)"
    by (simp add: item split_def Let_def)
  from Cons.prems unfold
  consider "s = ?head" | "s \<in> set (fst (create_scatter_plot df d m ?g2))"
    by auto
  then show ?case
  proof cases
    case 1
    then show ?thesis
      by (auto simp: item)
  next
    case 2
    from Cons.IH [OF 2] show ?thesis
      by auto
  qed
qed

lemma labels_of_plot: "map scatter_label (fst (create_scatter_plot df d m g)) = map fst d"
  by (induction d arbitrary: g) (auto simp: split_def Let_def)

lemma colours_of_plot: "map scatter_c (fst (create_scatter_plot df d m g)) = map snd d"
  by (induction d arbitrary: g) (auto simp: split_def Let_def)

lemma labels_column: "map fst (column f df) = map fst df"
  by (simp add: column_def split_def)

lemma series_rows:
  assumes "s \<in> set (fst (create_scatter_plot df d m g))"
  shows "map fst (scatter_x s) = map fst (select_rows (\<lambda>r. priority r = scatter_label s) df)"
    and "map fst (scatter_y s) = map fst (select_rows (\<lambda>r. priority r = scatter_label s) df)"
  using series_of_plot [OF assms] by (auto simp: labels_add_jitter labels_column)

lemma unmapped_priority_in_no_series:
  assumes s: "s \<in> set (fst (create_scatter_plot df d m g))"
    and df: "distinct (map fst df)" and r: "(i, r) \<in> set df"
    and un: "priority r \<notin> set (dict_keys d)"
  shows "i \<notin> fst ` set (scatter_x s) \<and> i \<notin> fst ` set (scatter_y s)"
proof -
  have "i \<notin> fst ` set (select_rows (\<lambda>r. priority r = scatter_label s) df)"
  proof
    assume "i \<in> fst ` set (select_rows (\<lambda>r. priority r = scatter_label s) df)"
    then obtain r' where r': "(i, r') \<in> set df" "priority r' = scatter_label s"
      by (auto simp: select_rows_def)
    from df r r'(1) have "r' = r"
      by (rule eq_key_imp_eq_value [symmetric])
    with r'(2) series_of_plot [OF s] un show False
      by (force simp: dict_keys_def)
  qed
  then show ?thesis
    using series_rows [OF s] by (metis set_map)
qed


lemma drawn_pointsD:
  assumes "p \<in> set (drawn_points s)"
  shows "\<exists>k u v j. k < length (scatter_x s) \<and> k < length (scatter_y s) \<and>
           scatter_x s ! k = (fst p, Some u) \<and> scatter_y s ! k = (j, Some v)"
proof -
  from assms obtain pq where pq: "pq \<in> set (zip (scatter_x s) (scatter_y s))"
    and p: "drawn_point pq = Some p"
    by (auto simp: drawn_points_def map_filter_def)
  from pq obtain k where k: "k < length (scatter_x s)" "k < length (scatter_y s)"
    "scatter_x s ! k = fst pq" "scatter_y s ! k = snd pq"
    by (auto simp: in_set_zip)
  from p obtain u v where "snd (fst pq) = Some u" "snd (snd pq) = Some v" "fst (fst pq) = fst p"
    by (auto simp: drawn_point_def split: option.splits)
  with k show ?thesis
    by (metis prod.collapse)
qed

lemma nth_column: "k < length df \<Longrightarrow> column f df ! k = (fst (df ! k), f (snd (df ! k)))"
  by (simp add: column_def split_def)

lemma length_column: "length (column f df) = length df"
  by (simp add: column_def)

lemma float_add_Some: "float_add a b = Some w \<Longrightarrow> a \<noteq> None"
  by (auto simp: float_add_def split: option.splits)

lemma missing_rank_not_drawn:
  assumes s: "s \<in> set (fst (create_scatter_plot df d m g))"
    and df: "distinct (map fst df)" and r: "(i, r) \<in> set df"
    and nan: "numerical_effort r = None \<or> numerical_impact r = None"
  shows "i \<notin> fst ` set (drawn_points s)"
proof
  assume "i \<in> fst ` set (drawn_points s)"
  then obtain p where p: "p \<in> set (drawn_points s)" "fst p = i"
    by auto
  let ?subset = "select_rows (\<lambda>r. priority r = scatter_label s) df"
  from series_of_plot [OF s] obtain g1 g2 where
    x: "scatter_x s = fst (add_jitter (column numerical_effort ?subset) m g1)" and
    y: "scatter_y s = fst (add_jitter (column numerical_impact ?subset) m g2)"
    by blast
  from drawn_pointsD [OF p(1)] p(2) obtain k u v j where
    k: "k < length (scatter_x s)" and xk: "scatter_x s ! k = (i, Some u)"
    and yk: "scatter_y s ! k = (j, Some v)"
    by blast
  from k x have kl: "k < length ?subset"
    by (simp add: length_add_jitter length_column)
  from xk x kl have lab: "fst (?subset ! k) = i"
    and ne: "float_add (numerical_effort (snd (?subset ! k)))
               (float_mul (float_sub (Some (g1 k)) (Some 0.5)) (Some m)) = Some u"
    by (simp_all add: nth_add_jitter length_column nth_column)
  from yk y kl
  have ni: "float_add (numerical_impact (snd (?subset ! k)))
              (float_mul (float_sub (Some (g2 k)) (Some 0.5)) (Some m)) = Some v"
    by (simp add: nth_add_jitter length_column nth_column)
  from kl have "?subset ! k \<in> set ?subset"
    by (rule nth_mem)
  then have "?subset ! k \<in> set df"
    by (simp add: select_rows_def)
  with lab have "(i, snd (?subset ! k)) \<in> set df"
    by (metis prod.collapse)
  with df r have "snd (?subset ! k) = r"
    by (metis eq_key_imp_eq_value)
  with ne ni nan show False
    by (auto dest: float_add_Some)
qed

lemma distinct_read_csv: "distinct (map fst (read_csv rows))"
  by (simp add: read_csv_def)

lemma distinct_prepared: "distinct (map fst (fst (load_and_prepare_data rows)))"
  by (simp add: load_and_prepare_data_def read_csv_def split_def comp_def Let_def)

lemma series_map_absent: "v \<notin> set (dict_keys d) \<Longrightarrow> series_map d v = None"
  by (simp add: series_map_def dict_keys_def map_of_eq_None_iff)

lemma prepared_rowD:
  "(i, r) \<in> set (fst (load_and_prepare_data rows)) \<Longrightarrow>
   i < length rows \<and> r = prepare_row (rows ! i)"
  by (auto simp: load_and_prepare_data_def read_csv_def Let_def in_set_zip)

text \<open>
  C6.  For every data frame and every colour mapping, \<open>create_scatter_plot\<close> makes one
  series per item of the mapping, in order, labelled with the key and coloured with the
  mapped colour.  The row labels of a series are those of the rows whose priority equals
  its key, in both coordinate series.  When the row labels of the data frame are distinct,
  a row whose priority is not a key occurs in no series.
\<close>

theorem scatter_series_per_priority:
  "map scatter_label (fst (create_scatter_plot df d m g)) = dict_keys d \<and>
   map scatter_c (fst (create_scatter_plot df d m g)) = map snd d \<and>
   (\<forall>s \<in> set (fst (create_scatter_plot df d m g)).
      map fst (scatter_x s) = map fst (select_rows (\<lambda>r. priority r = scatter_label s) df) \<and>
      map fst (scatter_y s) = map fst (select_rows (\<lambda>r. priority r = scatter_label s) df)) \<and>
   (distinct (map fst df) \<longrightarrow>
      (\<forall>(i, r) \<in> set df. priority r \<notin> set (dict_keys d) \<longrightarrow>
         (\<forall>s \<in> set (fst (create_scatter_plot df d m g)).
            i \<notin> fst ` set (scatter_x s) \<and> i \<notin> fst ` set (scatter_y s))))"
proof (intro conjI ballI impI)
  show "map scatter_label (fst (create_scatter_plot df d m g)) = dict_keys d"
    by (simp add: labels_of_plot dict_keys_def)
  show "map scatter_c (fst (create_scatter_plot df d m g)) = map snd d"
    by (rule colours_of_plot)
next
  fix s assume "s \<in> set (fst (create_scatter_plot df d m g))"
  then show "map fst (scatter_x s) = map fst (select_rows (\<lambda>r. priority r = scatter_label s) df)"
    and "map fst (scatter_y s) = map fst (select_rows (\<lambda>r. priority r = scatter_label s) df)"
    by (rule series_rows)+
next
  fix ir
  assume df: "distinct (map fst df)" and ir: "ir \<in> set df"
  show "case ir of (i, r) \<Rightarrow> priority r \<notin> set (dict_keys d) \<longrightarrow>
         (\<forall>s \<in> set (fst (create_scatter_plot df d m g)).
            i \<notin> fst ` set (scatter_x s) \<and> i \<notin> fst ` set (scatter_y s))"
  proof (cases ir)
    case (Pair i r)
    with df ir show ?thesis
      by (auto dest: unmapped_priority_in_no_series)
  qed
qed

theorem scatter_series_per_priority_witness:
  "distinct (map fst (fst (load_and_prepare_data sample_projects))) \<and>
   (2, prepare_row (sample_projects ! 2)) \<in> set (fst (load_and_prepare_data sample_projects)) \<and>
   priority (prepare_row (sample_projects ! 2)) \<notin> set (dict_keys priority_color_mapping) \<and>
   2 \<notin> (\<Union>s \<in> set (fst (create_scatter_plot (fst (load_and_prepare_data sample_projects))
                            priority_color_mapping (1 / 10) sample_rng)).
            fst ` set (scatter_x s) \<union> fst ` set (scatter_y s)) \<and>
   fst (create_scatter_plot (fst (load_and_prepare_data sample_projects))
          priority_color_mapping (1 / 10) sample_rng) ! 1
     \<in> set (fst (create_scatter_plot (fst (load_and_prepare_data sample_projects))
                 priority_color_mapping (1 / 10) sample_rng)) \<and>
   scatter_label (fst (create_scatter_plot (fst (load_and_prepare_data sample_projects))
                         priority_color_mapping (1 / 10) sample_rng) ! 1) = ascii ''P2'' \<and>
   map fst (scatter_x (fst (create_scatter_plot (fst (load_and_prepare_data sample_projects))
                              priority_color_mapping (1 / 10) sample_rng) ! 1)) = [0, 1]"
proof -
  define df where "df = fst (load_and_prepare_data sample_projects)"
  define plot where "plot = fst (create_scatter_plot df priority_color_mapping (1 / 10) sample_rng)"
  have df: "df = [(0, prepare_row (sample_projects ! 0)), (1, prepare_row (sample_projects ! 1)),
                  (2, prepare_row (sample_projects ! 2))]"
    by (simp add: df_def load_and_prepare_data_def read_csv_def sample_projects_def)
  have keys: "dict_keys priority_color_mapping =
                [ascii ''P1 '' @ [128293], ascii ''P2'', ascii ''P3'', ascii ''P4'']"
    by (simp add: priority_color_mapping_def dict_keys_def)
  have d: "distinct (map fst df)"
    by (simp add: df)
  have m: "(2, prepare_row (sample_projects ! 2)) \<in> set df"
    by (simp add: df)
  have p: "priority (prepare_row (sample_projects ! 2)) \<notin> set (dict_keys priority_color_mapping)"
    by (simp add: keys prepare_row_def sample_projects_def ascii_def)
  note inst = scatter_series_per_priority [of df priority_color_mapping "1 / 10" sample_rng,
      folded plot_def]
  have labels: "map scatter_label plot = dict_keys priority_color_mapping"
    by (rule inst [THEN conjunct1])
  from arg_cong [OF labels, of length] have len: "length plot = 4"
    by (simp add: keys)
  then have mem: "plot ! 1 \<in> set plot"
    by simp
  have "scatter_label (plot ! 1) = map scatter_label plot ! 1"
    using len by simp
  then have lab: "scatter_label (plot ! 1) = ascii ''P2''"
    by (simp add: labels keys)
  from bspec [OF inst [THEN conjunct2, THEN conjunct2, THEN conjunct1] mem, unfolded lab]
  have "map fst (scatter_x (plot ! 1)) = map fst (select_rows (\<lambda>r. priority r = ascii ''P2'') df)"
    by (rule conjunct1)
  also have "\<dots> = [0, 1]"
    by (simp add: df select_rows_def prepare_row_def sample_projects_def ascii_def)
  finally have rows: "map fst (scatter_x (plot ! 1)) = [0, 1]" .
  from bspec [OF mp [OF inst [THEN conjunct2, THEN conjunct2, THEN conjunct2] d] m] p
  have out: "2 \<notin> (\<Union>s \<in> set plot. fst ` set (scatter_x s) \<union> fst ` set (scatter_y s))"
    by simp
  from d m p out mem lab rows show ?thesis
    unfolding plot_def df_def by - (intro conjI; assumption)
qed

text \<open>
  C7.  A row of the prepared data whose effort label is not a key of the effort mapping has
  a missing numerical effort, and likewise for impact; whatever the colour mapping, jitter
  and draws, no series of the scatter plot draws a point for such a row.
\<close>

theorem unmapped_rank_is_missing:
  assumes "(i, r) \<in> set (fst (load_and_prepare_data csv_rows))"
    and "estimated_effort r \<notin> set (dict_keys effort_mapping) \<or>
         estimated_impact r \<notin> set (dict_keys impact_mapping)"
  shows "(estimated_effort r \<notin> set (dict_keys effort_mapping) \<longrightarrow> numerical_effort r = None) \<and>
         (estimated_impact r \<notin> set (dict_keys impact_mapping) \<longrightarrow> numerical_impact r = None) \<and>
         (\<forall>s \<in> set (fst (create_scatter_plot (fst (load_and_prepare_data csv_rows)) d m g)).
            i \<notin> fst ` set (drawn_points s))"
proof -
  from prepared_rowD [OF assms(1)] have r: "r = prepare_row (csv_rows ! i)"
    by simp
  have e: "estimated_effort r \<notin> set (dict_keys effort_mapping) \<longrightarrow> numerical_effort r = None"
    by (simp add: r prepare_row_def series_map_absent)
  have i: "estimated_impact r \<notin> set (dict_keys impact_mapping) \<longrightarrow> numerical_impact r = None"
    by (simp add: r prepare_row_def series_map_absent)
  from e i assms(2) have "numerical_effort r = None \<or> numerical_impact r = None"
    by auto
  with assms(1) distinct_prepared [of csv_rows]
  have "\<forall>s \<in> set (fst (create_scatter_plot (fst (load_and_prepare_data csv_rows)) d m g)).
          i \<notin> fst ` set (drawn_points s)"
    by (intro ballI) (rule missing_rank_not_drawn)
  with e i show ?thesis
    by simp
qed

theorem unmapped_rank_is_missing_witness:
  "(1, prepare_row (sample_projects ! 1)) \<in> set (fst (load_and_prepare_data sample_projects)) \<and>
   estimated_effort (prepare_row (sample_projects ! 1)) \<notin> set (dict_keys effort_mapping) \<and>
   numerical_effort (prepare_row (sample_projects ! 1)) = None \<and>
   1 \<notin> (\<Union>s \<in> set (fst (create_scatter_plot (fst (load_and_prepare_data sample_projects))
                            priority_color_mapping (1 / 10) sample_rng)).
            fst ` set (drawn_points s))"
proof -
  have m: "(1, prepare_row (sample_projects ! 1)) \<in> set (fst (load_and_prepare_data sample_projects))"
    by (simp add: load_and_prepare_data_def read_csv_def sample_projects_def)
  have e: "estimated_effort (prepare_row (sample_projects ! 1)) \<notin> set (dict_keys effort_mapping)"
    by (simp add: prepare_row_def sample_projects_def effort_mapping_def dict_keys_def ascii_def)
  note inst = unmapped_rank_is_missing [OF m disjI1 [OF e], of priority_color_mapping "1 / 10" sample_rng]
  from inst [THEN conjunct1] e have n: "numerical_effort (prepare_row (sample_projects ! 1)) = None"
    by (rule mp)
  from inst [THEN conjunct2, THEN conjunct2]
  have "1 \<notin> (\<Union>s \<in> set (fst (create_scatter_plot (fst (load_and_prepare_data sample_projects))
                            priority_color_mapping (1 / 10) sample_rng)).
            fst ` set (drawn_points s))"
    by simp
  with m e n show ?thesis
    by - (intro conjI; assumption)
qed

text \<open>
  C10.  The colour mapping returned by \<open>load_and_prepare_data\<close> has the keys \<open>P1\<close>
  with the fire emoji, \<open>P2\<close>, \<open>P3\<close> and \<open>P4\<close>.  The plain labels \<open>P1\<close> and \<open>P5\<close>
  are keys of \<open>PRIORITY_TEXT_REPRESENTATION\<close>, and a row with either priority occurs in
  no series of the scatter plot built from that mapping.
\<close>

theorem plain_P1_and_P5_in_no_series:
  "dict_keys (snd (load_and_prepare_data csv_rows)) =
     [ascii ''P1 '' @ [128293], ascii ''P2'', ascii ''P3'', ascii ''P4''] \<and>
   ascii ''P1'' \<in> set (dict_keys PRIORITY_TEXT_REPRESENTATION) \<and>
   ascii ''P5'' \<in> set (dict_keys PRIORITY_TEXT_REPRESENTATION) \<and>
   (\<forall>(i, r) \<in> set (fst (load_and_prepare_data csv_rows)).
      priority r = ascii ''P1'' \<or> priority r = ascii ''P5'' \<longrightarrow>
      (\<forall>s \<in> set (fst (create_scatter_plot (fst (load_and_prepare_data csv_rows))
                         (snd (load_and_prepare_data csv_rows)) m g)).
         i \<notin> fst ` set (scatter_x s) \<and> i \<notin> fst ` set (scatter_y s)))"
proof (intro conjI ballI)
  show keys: "dict_keys (snd (load_and_prepare_data csv_rows)) =
     [ascii ''P1 '' @ [128293], ascii ''P2'', ascii ''P3'', ascii ''P4'']"
    by (simp add: load_and_prepare_data_def Let_def priority_color_mapping_def dict_keys_def)
  show "ascii ''P1'' \<in> set (dict_keys PRIORITY_TEXT_REPRESENTATION)"
    by (simp add: PRIORITY_TEXT_REPRESENTATION_def dict_keys_def)
  show "ascii ''P5'' \<in> set (dict_keys PRIORITY_TEXT_REPRESENTATION)"
    by (simp add: PRIORITY_TEXT_REPRESENTATION_def dict_keys_def)
  fix ir assume ir: "ir \<in> set (fst (load_and_prepare_data csv_rows))"
  have 1: "ascii ''P1'' \<notin> set (dict_keys (snd (load_and_prepare_data csv_rows)))"
    unfolding keys by (simp add: ascii_def)
  have 5: "ascii ''P5'' \<notin> set (dict_keys (snd (load_and_prepare_data csv_rows)))"
    unfolding keys by (simp add: ascii_def)
  show "case ir of (i, r) \<Rightarrow> priority r = ascii ''P1'' \<or> priority r = ascii ''P5'' \<longrightarrow>
      (\<forall>s \<in> set (fst (create_scatter_plot (fst (load_and_prepare_data csv_rows))
                         (snd (load_and_prepare_data csv_rows)) m g)).
         i \<notin> fst ` set (scatter_x s) \<and> i \<notin> fst ` set (scatter_y s))"
  proof (cases ir)
    case (Pair i r)
    show ?thesis
      unfolding Pair prod.case
    proof (intro impI ballI)
      fix s
      assume p: "priority r = ascii ''P1'' \<or> priority r = ascii ''P5''"
        and s: "s \<in> set (fst (create_scatter_plot (fst (load_and_prepare_data csv_rows))
                         (snd (load_and_prepare_data csv_rows)) m g))"
      from p 1 5 have "priority r \<notin> set (dict_keys (snd (load_and_prepare_data csv_rows)))"
        by metis
      with s distinct_prepared [of csv_rows] ir Pair
      show "i \<notin> fst ` set (scatter_x s) \<and> i \<notin> fst ` set (scatter_y s)"
        by (intro unmapped_priority_in_no_series) simp_all
    qed
  qed
qed

theorem plain_P1_and_P5_in_no_series_witness:
  "(2, prepare_row (sample_projects ! 2)) \<in> set (fst (load_and_prepare_data sample_projects)) \<and>
   priority (prepare_row (sample_projects ! 2)) = ascii ''P1'' \<and>
   2 \<notin> (\<Union>s \<in> set (fst (create_scatter_plot (fst (load_and_prepare_data sample_projects))
                            (snd (load_and_prepare_data sample_projects)) (1 / 10) sample_rng)).
            fst ` set (scatter_x s) \<union> fst ` set (scatter_y s))"
proof -
  have m: "(2, prepare_row (sample_projects ! 2)) \<in> set (fst (load_and_prepare_data sample_projects))"
    by (simp add: load_and_prepare_data_def read_csv_def sample_projects_def)
  have p: "priority (prepare_row (sample_projects ! 2)) = ascii ''P1''"
    by (simp add: prepare_row_def sample_projects_def)
  note inst = plain_P1_and_P5_in_no_series [of sample_projects "1 / 10" sample_rng,
      THEN conjunct2, THEN conjunct2, THEN conjunct2]
  from bspec [OF inst m] p
  have "2 \<notin> (\<Union>s \<in> set (fst (create_scatter_plot (fst (load_and_prepare_data sample_projects))
                            (snd (load_and_prepare_data sample_projects)) (1 / 10) sample_rng)).
            fst ` set (scatter_x s) \<union> fst ` set (scatter_y s))"
    by simp
  with m p show ?thesis
    by - (intro conjI; assumption)
qed

section \<open>Properties of the pivot tables and bar charts\<close>

lemma pivot_duplicate:
  "\<not> distinct (map (\<lambda>r. (idx r, cols r)) (map snd df)) \<Longrightarrow> pivot idx cols vals df = Inl ValueError"
  by (simp add: pivot_def Let_def comp_def)

lemma map_of_converted:
  "map_option f (map_of (map (\<lambda>r. (key r, val r)) rows) k) =
   map_of (map (\<lambda>r. (key r, f (val r))) rows) k"
  by (induction rows) simp_all

lemma pivot_unique:
  assumes "distinct (map (\<lambda>r. (idx r, cols r)) (map snd df))"
  shows "\<exists>conv. (\<forall>n. \<bar>n\<bar> \<le> 2 ^ 53 \<longrightarrow> conv n = of_int n) \<and>
     pivot idx cols vals df =
       Inr \<lparr>frame_index = sort (remdups (map idx (map snd df))),
            frame_columns = sort (remdups (map cols (map snd df))),
            frame_values =
              map (\<lambda>i. map (\<lambda>c. map_of (map (\<lambda>r. ((idx r, cols r), conv (vals r))) (map snd df)) (i, c))
                          (sort (remdups (map cols (map snd df)))))
                (sort (remdups (map idx (map snd df))))\<rparr>"
proof -
  let ?rows = "map snd df"
  let ?cells = "map (\<lambda>r. ((idx r, cols r), vals r)) ?rows"
  let ?index = "sort (remdups (map idx ?rows))"
  let ?columns = "sort (remdups (map cols ?rows))"
  let ?complete = "list_all (\<lambda>i. list_all (\<lambda>c. map_of ?cells (i, c) \<noteq> None) ?columns) ?index"
  let ?conv = "\<lambda>n. if ?complete then real_of_int n else round64 (of_int n)"
  have good: "\<forall>n. \<bar>n\<bar> \<le> 2 ^ 53 \<longrightarrow> ?conv n = of_int n"
    by (simp add: round64_of_int)
  have d: "distinct (map fst ?cells)"
    using assms by (simp add: comp_def)
  have "pivot idx cols vals df =
       Inr \<lparr>frame_index = ?index, frame_columns = ?columns,
            frame_values = map (\<lambda>i. map (\<lambda>c. map_option ?conv (map_of ?cells (i, c))) ?columns) ?index\<rparr>"
    using d unfolding pivot_def Let_def by (simp only: simp_thms if_False)
  then have p: "pivot idx cols vals df =
       Inr \<lparr>frame_index = ?index, frame_columns = ?columns,
            frame_values =
              map (\<lambda>i. map (\<lambda>c. map_of (map (\<lambda>r. ((idx r, cols r), ?conv (vals r))) ?rows) (i, c))
                          ?columns) ?index\<rparr>"
    by (simp only: map_of_converted)
  show ?thesis
    by (rule exI [where x = ?conv]) (rule conjI [OF good p])
qed

lemma loc_grid:
  "loc \<lparr>frame_index = R, frame_columns = C, frame_values = map (\<lambda>i. map (f i) C) R\<rparr> i c =
     (if i \<in> set R \<and> c \<in> set C then Some (f i c) else None)"
  by (simp add: loc_def map_of_zip_map)

lemma fillna_grid:
  "fillna z \<lparr>frame_index = R, frame_columns = C, frame_values = map (\<lambda>i. map (f i) C) R\<rparr> =
     \<lparr>frame_index = R, frame_columns = C,
      frame_values = map (\<lambda>i. map (\<lambda>c. case f i c of None \<Rightarrow> z | Some u \<Rightarrow> u) C) R\<rparr>"
  by (simp add: fillna_def comp_def)

lemma map_of_cells_present:
  assumes "distinct (map (\<lambda>r. (idx r, cols r)) rows)" and "r \<in> set rows"
  shows "map_of (map (\<lambda>r. ((idx r, cols r), vals r)) rows) (idx r, cols r) = Some (vals r)"
proof -
  have "distinct (map fst (map (\<lambda>r. ((idx r, cols r), vals r)) rows))"
    using assms(1) by (simp add: comp_def)
  moreover have "((idx r, cols r), vals r) \<in> set (map (\<lambda>r. ((idx r, cols r), vals r)) rows)"
    using assms(2) by auto
  ultimately show ?thesis
    by (rule map_of_is_SomeI)
qed

lemma map_of_cells_absent:
  assumes "\<forall>r \<in> set rows. (idx r, cols r) \<noteq> (i, c)"
  shows "map_of (map (\<lambda>r. ((idx r, cols r), vals r)) rows) (i, c) = None"
  using assms by (auto simp: map_of_eq_None_iff image_iff)

lemma sum_map_of_distinct:
  fixes kv :: "('k \<times> 'v::comm_monoid_add) list"
  assumes "distinct (map fst kv)"
  shows "(\<Sum>k \<in> fst ` set kv. case map_of kv k of None \<Rightarrow> 0 | Some u \<Rightarrow> u) = sum_list (map snd kv)"
  using assms
proof (induction kv)
  case Nil
  then show ?case by simp
next
  case (Cons p kv)
  obtain k v where p: "p = (k, v)"
    by (cases p)
  from Cons.prems p have k: "k \<notin> fst ` set kv" and d: "distinct (map fst kv)"
    by auto
  have "(\<Sum>x \<in> fst ` set (p # kv). case map_of (p # kv) x of None \<Rightarrow> 0 | Some u \<Rightarrow> u) =
        v + (\<Sum>x \<in> fst ` set kv. case map_of (p # kv) x of None \<Rightarrow> 0 | Some u \<Rightarrow> u)"
    using k by (simp add: p)
  also have "(\<Sum>x \<in> fst ` set kv. case map_of (p # kv) x of None \<Rightarrow> 0 | Some u \<Rightarrow> u) =
             (\<Sum>x \<in> fst ` set kv. case map_of kv x of None \<Rightarrow> 0 | Some u \<Rightarrow> u)"
    using k by (intro sum.cong) (auto simp: p)
  also have "\<dots> = sum_list (map snd kv)"
    by (rule Cons.IH [OF d])
  finally show ?case
    by (simp add: p)
qed

lemma sum_grid:
  fixes h :: "'a \<times> 'b \<Rightarrow> 'v::comm_monoid_add"
  assumes "distinct R" and "distinct C"
  shows "sum_list (map sum_list (map (\<lambda>i. map (\<lambda>c. h (i, c)) C) R)) = sum h (set R \<times> set C)"
proof -
  have "sum_list (map sum_list (map (\<lambda>i. map (\<lambda>c. h (i, c)) C) R)) =
        sum_list (map (\<lambda>i. sum (\<lambda>c. h (i, c)) (set C)) R)"
    using assms(2) by (simp add: comp_def sum_list_distinct_conv_sum_set)
  also have "\<dots> = (\<Sum>i \<in> set R. \<Sum>c \<in> set C. h (i, c))"
    using assms(1) by (simp add: sum_list_distinct_conv_sum_set)
  also have "\<dots> = sum h (set R \<times> set C)"
    by (simp add: sum.cartesian_product)
  finally show ?thesis .
qed

lemma sum_pivot_cells:
  fixes vals :: "'r \<Rightarrow> 'v::comm_monoid_add"
  assumes d: "distinct (map (\<lambda>r. (idx r, cols r)) rows)"
  shows "sum_list (map sum_list
           (map (\<lambda>i. map (\<lambda>c. case map_of (map (\<lambda>r. ((idx r, cols r), vals r)) rows) (i, c) of
                                 None \<Rightarrow> 0 | Some u \<Rightarrow> u)
                        (sort (remdups (map cols rows))))
              (sort (remdups (map idx rows))))) =
         sum_list (map vals rows)"
proof -
  let ?kv = "map (\<lambda>r. ((idx r, cols r), vals r)) rows"
  let ?h = "\<lambda>k. case map_of ?kv k of None \<Rightarrow> 0 | Some u \<Rightarrow> u"
  let ?R = "sort (remdups (map idx rows))"
  let ?C = "sort (remdups (map cols rows))"
  have dk: "distinct (map fst ?kv)"
    using d by (simp add: comp_def)
  have sub: "fst ` set ?kv \<subseteq> set ?R \<times> set ?C"
    by auto
  have zero: "\<forall>k \<in> set ?R \<times> set ?C - fst ` set ?kv. ?h k = 0"
    by (auto simp: map_of_eq_None_iff [THEN iffD2])
  have "sum_list (map sum_list (map (\<lambda>i. map (\<lambda>c. ?h (i, c)) ?C) ?R)) = sum ?h (set ?R \<times> set ?C)"
    by (rule sum_grid) simp_all
  also have "\<dots> = sum ?h (fst ` set ?kv)"
    by (rule sum.mono_neutral_right) (use sub zero in auto)
  also have "\<dots> = sum_list (map snd ?kv)"
    by (rule sum_map_of_distinct [OF dk])
  also have "\<dots> = sum_list (map vals rows)"
    by (simp add: comp_def)
  finally show ?thesis .
qed

lemma distinct_swap_keys:
  "distinct (map (\<lambda>r. (f r, g r)) rows) = distinct (map (\<lambda>r. (g r, f r)) rows)"
proof -
  have "map (\<lambda>r. (g r, f r)) rows = map prod.swap (map (\<lambda>r. (f r, g r)) rows)"
    by simp
  then show ?thesis
    by (simp only: distinct_map) (auto simp: inj_on_def)
qed

lemma pivot_fillna_unique:
  assumes "distinct (map (\<lambda>r. (idx r, cols r)) (map snd df))"
  shows "\<exists>conv. (\<forall>n. \<bar>n\<bar> \<le> 2 ^ 53 \<longrightarrow> conv n = of_int n) \<and>
     (case pivot idx cols vals df of Inl e \<Rightarrow> Inl e | Inr t \<Rightarrow> Inr (fillna z t)) =
       Inr \<lparr>frame_index = sort (remdups (map idx (map snd df))),
            frame_columns = sort (remdups (map cols (map snd df))),
            frame_values =
              map (\<lambda>i. map (\<lambda>c. case map_of (map (\<lambda>r. ((idx r, cols r), conv (vals r))) (map snd df))
                                       (i, c) of
                                  None \<Rightarrow> z | Some u \<Rightarrow> u)
                          (sort (remdups (map cols (map snd df)))))
                (sort (remdups (map idx (map snd df))))\<rparr>"
proof -
  from pivot_unique [OF assms, of vals] obtain conv where
    good: "\<forall>n. \<bar>n\<bar> \<le> 2 ^ 53 \<longrightarrow> conv n = of_int n" and
    p: "pivot idx cols vals df =
       Inr \<lparr>frame_index = sort (remdups (map idx (map snd df))),
            frame_columns = sort (remdups (map cols (map snd df))),
            frame_values =
              map (\<lambda>i. map (\<lambda>c. map_of (map (\<lambda>r. ((idx r, cols r), conv (vals r))) (map snd df)) (i, c))
                          (sort (remdups (map cols (map snd df)))))
                (sort (remdups (map idx (map snd df))))\<rparr>"
    by (elim exE conjE)
  show ?thesis
    by (rule exI [where x = conv], rule conjI [OF good]) (simp only: p fillna_grid sum.case)
qed

lemma month_pivot_table_unique:
  assumes "distinct (map (\<lambda>r. (closed_by r, year_month r)) (map snd df))"
  shows "\<exists>conv. (\<forall>n. \<bar>n\<bar> \<le> 2 ^ 53 \<longrightarrow> conv n = of_int n) \<and>
     month_pivot_table df =
       Inr \<lparr>frame_index = sort (remdups (map year_month (map snd df))),
            frame_columns = sort (remdups (map closed_by (map snd df))),
            frame_values =
              map (\<lambda>i. map (\<lambda>c. case map_of (map (\<lambda>r. ((year_month r, closed_by r),
                                                          conv (resolved_count r))) (map snd df))
                                       (i, c) of
                                  None \<Rightarrow> 0 | Some u \<Rightarrow> u)
                          (sort (remdups (map closed_by (map snd df)))))
                (sort (remdups (map year_month (map snd df))))\<rparr>"
  unfolding month_pivot_table_def
  by (rule pivot_fillna_unique) (simp only: assms distinct_swap_keys [of year_month closed_by])

lemma engineer_pivot_table_unique:
  assumes "distinct (map (\<lambda>r. (closed_by r, year_month r)) (map snd df))"
  shows "\<exists>conv. (\<forall>n. \<bar>n\<bar> \<le> 2 ^ 53 \<longrightarrow> conv n = of_int n) \<and>
     engineer_pivot_table df =
       Inr \<lparr>frame_index = sort (remdups (map closed_by (map snd df))),
            frame_columns = sort (remdups (map year_month (map snd df))),
            frame_values =
              map (\<lambda>i. map (\<lambda>c. case map_of (map (\<lambda>r. ((closed_by r, year_month r),
                                                          conv (resolved_count r))) (map snd df))
                                       (i, c) of
                                  None \<Rightarrow> 0 | Some u \<Rightarrow> u)
                          (sort (remdups (map year_month (map snd df)))))
                (sort (remdups (map closed_by (map snd df))))\<rparr>"
  unfolding engineer_pivot_table_def
  by (rule pivot_fillna_unique) (rule assms)

lemma pivot_tables_duplicate:
  assumes "\<not> distinct (map (\<lambda>r. (closed_by r, year_month r)) (map snd df))"
  shows "engineer_pivot_table df = Inl ValueError" and "month_pivot_table df = Inl ValueError"
proof -
  show "engineer_pivot_table df = Inl ValueError"
    by (simp add: engineer_pivot_table_def pivot_duplicate [OF assms])
  from assms have "\<not> distinct (map (\<lambda>r. (year_month r, closed_by r)) (map snd df))"
    by (simp only: distinct_swap_keys [of year_month closed_by] not_False_eq_True)
  then show "month_pivot_table df = Inl ValueError"
    by (simp add: month_pivot_table_def pivot_duplicate)
qed

lemma grid_cells:
  assumes d: "distinct (map (\<lambda>r. (idx r, cols r)) rows)"
    and t: "t = \<lparr>frame_index = sort (remdups (map idx rows)),
                 frame_columns = sort (remdups (map cols rows)),
                 frame_values =
                   map (\<lambda>i. map (\<lambda>c. case map_of (map (\<lambda>r. ((idx r, cols r), vals r)) rows) (i, c) of
                                       None \<Rightarrow> z | Some u \<Rightarrow> u)
                               (sort (remdups (map cols rows))))
                     (sort (remdups (map idx rows)))\<rparr>"
  shows "set (frame_index t) = idx ` set rows"
    and "set (frame_columns t) = cols ` set rows"
    and "r \<in> set rows \<Longrightarrow> loc t (idx r) (cols r) = Some (vals r)"
    and "i \<in> idx ` set rows \<Longrightarrow> c \<in> cols ` set rows \<Longrightarrow>
         \<forall>r \<in> set rows. (idx r, cols r) \<noteq> (i, c) \<Longrightarrow> loc t i c = Some z"
    and "i \<in> idx ` set rows \<Longrightarrow> c \<in> cols ` set rows \<Longrightarrow> loc t i c \<noteq> None"
proof -
  show "set (frame_index t) = idx ` set rows" and "set (frame_columns t) = cols ` set rows"
    by (simp_all add: t)
  have cell: "loc t i c =
      (if i \<in> idx ` set rows \<and> c \<in> cols ` set rows
       then Some (case map_of (map (\<lambda>r. ((idx r, cols r), vals r)) rows) (i, c) of
                    None \<Rightarrow> z | Some u \<Rightarrow> u)
       else None)" for i c
    unfolding t by (simp only: loc_grid) simp
  show "loc t (idx r) (cols r) = Some (vals r)" if "r \<in> set rows"
    using that by (simp add: cell map_of_cells_present [OF d])
  show "loc t i c = Some z"
    if "i \<in> idx ` set rows" "c \<in> cols ` set rows" "\<forall>r \<in> set rows. (idx r, cols r) \<noteq> (i, c)"
    using that by (simp add: cell map_of_cells_absent)
  show "loc t i c \<noteq> None" if "i \<in> idx ` set rows" "c \<in> cols ` set rows"
    using that by (simp add: cell)
qed

lemma map_of_graph: "x \<in> set xs \<Longrightarrow> map_of (map (\<lambda>i. (i, g i)) xs) x = Some (g x)"
  by (induction xs) auto

lemma zip_column:
  "j < length C \<Longrightarrow>
   zip R (map (\<lambda>row. row ! j) (map (\<lambda>i. map (f i) C) R)) = map (\<lambda>i. (i, f i (C ! j))) R"
  by (induction R) simp_all

lemma plot_bar_grid:
  assumes "R \<noteq> []" and "C \<noteq> []"
  shows "plot_bar b \<lparr>frame_index = R, frame_columns = C, frame_values = map (\<lambda>i. map (f i) C) R\<rparr> =
     Inr \<lparr>chart_stacked = b,
          chart_series =
            map (\<lambda>j. \<lparr>bar_label = C ! j, bar_color = map tab20 (linspace01 (length C)) ! j,
                      bar_heights = map (\<lambda>i. (i, f i (C ! j))) R\<rparr>)
              [0..<length C]\<rparr>"
  using assms by (simp add: plot_bar_def zip_column del: map_map)

lemma plot_bar_series:
  assumes "R \<noteq> []" and "c \<in> set C" and "i \<in> set R"
  shows "\<exists>chart s. plot_bar b \<lparr>frame_index = R, frame_columns = C,
                              frame_values = map (\<lambda>i. map (f i) C) R\<rparr> = Inr chart \<and>
           chart_stacked chart = b \<and>
           s \<in> set (chart_series chart) \<and> bar_label s = c \<and>
           map fst (bar_heights s) = R \<and> map_of (bar_heights s) i = Some (f i c)"
proof -
  from assms(2) obtain j where j: "j < length C" "C ! j = c"
    by (auto simp: in_set_conv_nth)
  from assms(2) have C: "C \<noteq> []"
    by auto
  let ?series = "\<lambda>j. \<lparr>bar_label = C ! j, bar_color = map tab20 (linspace01 (length C)) ! j,
                       bar_heights = map (\<lambda>i. (i, f i (C ! j))) R\<rparr>"
  let ?chart = "\<lparr>chart_stacked = b, chart_series = map ?series [0..<length C]\<rparr>"
  have 1: "plot_bar b \<lparr>frame_index = R, frame_columns = C,
                       frame_values = map (\<lambda>i. map (f i) C) R\<rparr> = Inr ?chart"
    by (rule plot_bar_grid [OF assms(1) C])
  have 2: "?series j \<in> set (chart_series ?chart)"
    using j(1) by (auto intro!: image_eqI [where x = j])
  have 3: "bar_label (?series j) = c"
    using j(2) by simp
  have 4: "map fst (bar_heights (?series j)) = R"
    by (simp add: comp_def)
  have 5: "map_of (bar_heights (?series j)) i = Some (f i c)"
    using assms(3) j(2) by (simp add: map_of_graph)
  have 6: "chart_stacked ?chart = b"
    by simp
  show ?thesis
    by (rule exI [where x = ?chart], rule exI [where x = "?series j"]) (intro conjI 1 6 2 3 4 5)
qed

lemma length_linspace01 [simp]: "length (linspace01 n) = n"
  by (simp add: linspace01_def)

lemma plot_bar_legend:
  assumes "R \<noteq> []" and "C \<noteq> []"
  shows "\<exists>chart. plot_bar b \<lparr>frame_index = R, frame_columns = C,
                           frame_values = map (\<lambda>i. map (f i) C) R\<rparr> = Inr chart \<and>
           legend chart = zip C (map tab20 (linspace01 (length C)))"
proof -
  let ?series = "\<lambda>j. \<lparr>bar_label = C ! j, bar_color = map tab20 (linspace01 (length C)) ! j,
                       bar_heights = map (\<lambda>i. (i, f i (C ! j))) R\<rparr>"
  let ?chart = "\<lparr>chart_stacked = b, chart_series = map ?series [0..<length C]\<rparr>"
  have 1: "plot_bar b \<lparr>frame_index = R, frame_columns = C,
                       frame_values = map (\<lambda>i. map (f i) C) R\<rparr> = Inr ?chart"
    by (rule plot_bar_grid [OF assms])
  have 2: "legend ?chart = zip C (map tab20 (linspace01 (length C)))"
    by (rule nth_equalityI) (simp_all add: legend_def)
  show ?thesis
    by (rule exI [where x = ?chart]) (rule conjI [OF 1 2])
qed

lemma tab20_less: "tab20 x < 20"
  by (simp add: tab20_def)

lemma round64_twenty: "round64 20 = 20"
  using round64_exact [of 5 2] by simp

lemma tab20_ends: "tab20 0 = 0" "tab20 1 = 19"
  by (simp_all add: tab20_def round64_twenty)

lemma linspace01_first: "0 < n \<Longrightarrow> linspace01 n ! 0 = 0"
  by (auto simp: linspace01_def nth_append)

lemma linspace01_last: "2 \<le> n \<Longrightarrow> linspace01 n ! (n - 1) = 1"
  by (auto simp: linspace01_def nth_append)

lemma engineer_table_cells:
  assumes d: "distinct (map (\<lambda>r. (closed_by r, year_month r)) (map snd df))"
  shows "\<exists>t. engineer_pivot_table df = Inr t \<and>
           set (frame_index t) = closed_by ` snd ` set df \<and>
           set (frame_columns t) = year_month ` snd ` set df \<and>
           (\<forall>r \<in> snd ` set df. \<bar>resolved_count r\<bar> \<le> 2 ^ 53 \<longrightarrow>
              loc t (closed_by r) (year_month r) = Some (of_int (resolved_count r))) \<and>
           (\<forall>e \<in> closed_by ` snd ` set df. \<forall>m \<in> year_month ` snd ` set df.
              loc t e m \<noteq> None \<and>
              ((\<forall>r \<in> snd ` set df. (closed_by r, year_month r) \<noteq> (e, m)) \<longrightarrow> loc t e m = Some 0))"
proof -
  from engineer_pivot_table_unique [OF d] obtain conv where
    good: "\<forall>n. \<bar>n\<bar> \<le> 2 ^ 53 \<longrightarrow> conv n = of_int n" and
    eq: "engineer_pivot_table df =
       Inr \<lparr>frame_index = sort (remdups (map closed_by (map snd df))),
            frame_columns = sort (remdups (map year_month (map snd df))),
            frame_values =
              map (\<lambda>i. map (\<lambda>c. case map_of (map (\<lambda>r. ((closed_by r, year_month r),
                                                          conv (resolved_count r))) (map snd df))
                                       (i, c) of
                                  None \<Rightarrow> 0 | Some u \<Rightarrow> u)
                          (sort (remdups (map year_month (map snd df)))))
                (sort (remdups (map closed_by (map snd df))))\<rparr>"
    by (elim exE conjE)
  note g = grid_cells [OF d refl, where vals = "\<lambda>r. conv (resolved_count r)" and z = 0,
      simplified set_map]
  show ?thesis
  proof (intro exI conjI ballI impI)
    show "engineer_pivot_table df = Inr \<lparr>frame_index = sort (remdups (map closed_by (map snd df))),
            frame_columns = sort (remdups (map year_month (map snd df))),
            frame_values =
              map (\<lambda>i. map (\<lambda>c. case map_of (map (\<lambda>r. ((closed_by r, year_month r),
                                                          conv (resolved_count r))) (map snd df))
                                       (i, c) of
                                  None \<Rightarrow> 0 | Some u \<Rightarrow> u)
                          (sort (remdups (map year_month (map snd df)))))
                (sort (remdups (map closed_by (map snd df))))\<rparr>"
      by (rule eq)
  next
    fix r assume "r \<in> snd ` set df" "\<bar>resolved_count r\<bar> \<le> 2 ^ 53"
    with good g(3) [of r]
    show "loc \<lparr>frame_index = sort (remdups (map closed_by (map snd df))),
            frame_columns = sort (remdups (map year_month (map snd df))),
            frame_values =
              map (\<lambda>i. map (\<lambda>c. case map_of (map (\<lambda>r. ((closed_by r, year_month r),
                                                          conv (resolved_count r))) (map snd df))
                                       (i, c) of
                                  None \<Rightarrow> 0 | Some u \<Rightarrow> u)
                          (sort (remdups (map year_month (map snd df)))))
                (sort (remdups (map closed_by (map snd df))))\<rparr> (closed_by r) (year_month r) =
        Some (of_int (resolved_count r))"
      by simp
  qed (rule g; assumption)+
qed

lemma month_table_cells:
  assumes d: "distinct (map (\<lambda>r. (closed_by r, year_month r)) (map snd df))"
  shows "\<exists>t. month_pivot_table df = Inr t \<and>
           set (frame_index t) = year_month ` snd ` set df \<and>
           set (frame_columns t) = closed_by ` snd ` set df \<and>
           (\<forall>r \<in> snd ` set df. \<bar>resolved_count r\<bar> \<le> 2 ^ 53 \<longrightarrow>
              loc t (year_month r) (closed_by r) = Some (of_int (resolved_count r))) \<and>
           (\<forall>e \<in> closed_by ` snd ` set df. \<forall>m \<in> year_month ` snd ` set df.
              loc t m e \<noteq> None \<and>
              ((\<forall>r \<in> snd ` set df. (closed_by r, year_month r) \<noteq> (e, m)) \<longrightarrow> loc t m e = Some 0))"
proof -
  from d have d': "distinct (map (\<lambda>r. (year_month r, closed_by r)) (map snd df))"
    by (simp only: distinct_swap_keys [of year_month closed_by])
  from month_pivot_table_unique [OF d] obtain conv where
    good: "\<forall>n. \<bar>n\<bar> \<le> 2 ^ 53 \<longrightarrow> conv n = of_int n" and
    eq: "month_pivot_table df =
       Inr \<lparr>frame_index = sort (remdups (map year_month (map snd df))),
            frame_columns = sort (remdups (map closed_by (map snd df))),
            frame_values =
              map (\<lambda>i. map (\<lambda>c. case map_of (map (\<lambda>r. ((year_month r, closed_by r),
                                                          conv (resolved_count r))) (map snd df))
                                       (i, c) of
                                  None \<Rightarrow> 0 | Some u \<Rightarrow> u)
                          (sort (remdups (map closed_by (map snd df)))))
                (sort (remdups (map year_month (map snd df))))\<rparr>"
    by (elim exE conjE)
  note g = grid_cells [OF d' refl, where vals = "\<lambda>r. conv (resolved_count r)" and z = 0,
      simplified set_map]
  show ?thesis
  proof (intro exI conjI ballI impI)
    show "month_pivot_table df = Inr \<lparr>frame_index = sort (remdups (map year_month (map snd df))),
            frame_columns = sort (remdups (map closed_by (map snd df))),
            frame_values =
              map (\<lambda>i. map (\<lambda>c. case map_of (map (\<lambda>r. ((year_month r, closed_by r),
                                                          conv (resolved_count r))) (map snd df))
                                       (i, c) of
                                  None \<Rightarrow> 0 | Some u \<Rightarrow> u)
                          (sort (remdups (map closed_by (map snd df)))))
                (sort (remdups (map year_month (map snd df))))\<rparr>"
      by (rule eq)
  next
    fix r assume "r \<in> snd ` set df" "\<bar>resolved_count r\<bar> \<le> 2 ^ 53"
    with good g(3) [of r]
    show "loc \<lparr>frame_index = sort (remdups (map year_month (map snd df))),
            frame_columns = sort (remdups (map closed_by (map snd df))),
            frame_values =
              map (\<lambda>i. map (\<lambda>c. case map_of (map (\<lambda>r. ((year_month r, closed_by r),
                                                          conv (resolved_count r))) (map snd df))
                                       (i, c) of
                                  None \<Rightarrow> 0 | Some u \<Rightarrow> u)
                          (sort (remdups (map closed_by (map snd df)))))
                (sort (remdups (map year_month (map snd df))))\<rparr> (year_month r) (closed_by r) =
        Some (of_int (resolved_count r))"
      by simp
  next
    fix e m
    assume "e \<in> closed_by ` snd ` set df" "m \<in> year_month ` snd ` set df"
      and "\<forall>r \<in> snd ` set df. (closed_by r, year_month r) \<noteq> (e, m)"
    then show "loc \<lparr>frame_index = sort (remdups (map year_month (map snd df))),
            frame_columns = sort (remdups (map closed_by (map snd df))),
            frame_values =
              map (\<lambda>i. map (\<lambda>c. case map_of (map (\<lambda>r. ((year_month r, closed_by r),
                                                          conv (resolved_count r))) (map snd df))
                                       (i, c) of
                                  None \<Rightarrow> 0 | Some u \<Rightarrow> u)
                          (sort (remdups (map closed_by (map snd df)))))
                (sort (remdups (map year_month (map snd df))))\<rparr> m e = Some 0"
      by (intro g(4)) auto
  qed (rule g; assumption)+
qed

text \<open>
  C1, as amended.  When no two rows of the input have the same engineer and month, both
  pivot tables exist: the one of \<open>plot_engineer_grouped_resolved_items\<close> has the observed
  engineers as row labels and the observed months as column labels, the one of the two
  per-month charts has them the other way round.  The cell of a row of the input holds its
  count (for a count of at most \<open>2 ^ 53\<close> in absolute value, which a float64 holds
  exactly), and the cell of an engineer and a month that no row combines holds 0.  When
  two rows do have the same engineer and month, nothing is summed: \<open>pivot\<close> raises
  \<open>ValueError\<close>, and so does each of the three chart functions.
\<close>

theorem pivot_rejects_duplicates:
  "(distinct (map (\<lambda>r. (closed_by r, year_month r)) (map snd df)) \<longrightarrow>
      (\<exists>t. engineer_pivot_table df = Inr t \<and>
           set (frame_index t) = closed_by ` snd ` set df \<and>
           set (frame_columns t) = year_month ` snd ` set df \<and>
           (\<forall>r \<in> snd ` set df. \<bar>resolved_count r\<bar> \<le> 2 ^ 53 \<longrightarrow>
              loc t (closed_by r) (year_month r) = Some (of_int (resolved_count r))) \<and>
           (\<forall>e \<in> closed_by ` snd ` set df. \<forall>m \<in> year_month ` snd ` set df.
              loc t e m \<noteq> None \<and>
              ((\<forall>r \<in> snd ` set df. (closed_by r, year_month r) \<noteq> (e, m)) \<longrightarrow> loc t e m = Some 0))) \<and>
      (\<exists>t. month_pivot_table df = Inr t \<and>
           set (frame_index t) = year_month ` snd ` set df \<and>
           set (frame_columns t) = closed_by ` snd ` set df \<and>
           (\<forall>r \<in> snd ` set df. \<bar>resolved_count r\<bar> \<le> 2 ^ 53 \<longrightarrow>
              loc t (year_month r) (closed_by r) = Some (of_int (resolved_count r))) \<and>
           (\<forall>e \<in> closed_by ` snd ` set df. \<forall>m \<in> year_month ` snd ` set df.
              loc t m e \<noteq> None \<and>
              ((\<forall>r \<in> snd ` set df. (closed_by r, year_month r) \<noteq> (e, m)) \<longrightarrow> loc t m e = Some 0)))) \<and>
   (\<not> distinct (map (\<lambda>r. (closed_by r, year_month r)) (map snd df)) \<longrightarrow>
      engineer_pivot_table df = Inl ValueError \<and> month_pivot_table df = Inl ValueError \<and>
      plot_resolved_items_per_month df = Inl ValueError \<and>
      plot_grouped_resolved_items_per_month df = Inl ValueError \<and>
      plot_engineer_grouped_resolved_items df = Inl ValueError)"
proof (intro conjI impI)
  assume d: "distinct (map (\<lambda>r. (closed_by r, year_month r)) (map snd df))"
  show "\<exists>t. engineer_pivot_table df = Inr t \<and>
           set (frame_index t) = closed_by ` snd ` set df \<and>
           set (frame_columns t) = year_month ` snd ` set df \<and>
           (\<forall>r \<in> snd ` set df. \<bar>resolved_count r\<bar> \<le> 2 ^ 53 \<longrightarrow>
              loc t (closed_by r) (year_month r) = Some (of_int (resolved_count r))) \<and>
           (\<forall>e \<in> closed_by ` snd ` set df. \<forall>m \<in> year_month ` snd ` set df.
              loc t e m \<noteq> None \<and>
              ((\<forall>r \<in> snd ` set df. (closed_by r, year_month r) \<noteq> (e, m)) \<longrightarrow> loc t e m = Some 0))"
    by (rule engineer_table_cells [OF d])
  show "\<exists>t. month_pivot_table df = Inr t \<and>
           set (frame_index t) = year_month ` snd ` set df \<and>
           set (frame_columns t) = closed_by ` snd ` set df \<and>
           (\<forall>r \<in> snd ` set df. \<bar>resolved_count r\<bar> \<le> 2 ^ 53 \<longrightarrow>
              loc t (year_month r) (closed_by r) = Some (of_int (resolved_count r))) \<and>
           (\<forall>e \<in> closed_by ` snd ` set df. \<forall>m \<in> year_month ` snd ` set df.
              loc t m e \<noteq> None \<and>
              ((\<forall>r \<in> snd ` set df. (closed_by r, year_month r) \<noteq> (e, m)) \<longrightarrow> loc t m e = Some 0))"
    by (rule month_table_cells [OF d])
next
  assume n: "\<not> distinct (map (\<lambda>r. (closed_by r, year_month r)) (map snd df))"
  note f = pivot_tables_duplicate [OF n]
  show "engineer_pivot_table df = Inl ValueError" and "month_pivot_table df = Inl ValueError"
    by (rule f)+
  show "plot_resolved_items_per_month df = Inl ValueError"
    and "plot_grouped_resolved_items_per_month df = Inl ValueError"
    and "plot_engineer_grouped_resolved_items df = Inl ValueError"
    by (simp_all add: plot_resolved_items_per_month_def plot_grouped_resolved_items_per_month_def
        plot_engineer_grouped_resolved_items_def f)
qed

text \<open>
  The grid of the scenario of C1, from the rows \<open>(A, Jan, 5)\<close> and \<open>(B, Feb, 5)\<close>; the
  rows \<open>(A, Jan, 3)\<close>, \<open>(A, Jan, 2)\<close>, \<open>(B, Feb, 5)\<close> of the scenario itself are refused.
\<close>

theorem pivot_rejects_duplicates_witness:
  "distinct (map (\<lambda>r. (closed_by r, year_month r)) (map snd unique_triples)) \<and>
   (\<exists>t. engineer_pivot_table unique_triples = Inr t \<and>
        set (frame_index t) = {ascii ''A'', ascii ''B''} \<and>
        set (frame_columns t) = {ascii ''Jan'', ascii ''Feb''} \<and>
        loc t (ascii ''A'') (ascii ''Jan'') = Some 5 \<and>
        loc t (ascii ''A'') (ascii ''Feb'') = Some 0 \<and>
        loc t (ascii ''B'') (ascii ''Jan'') = Some 0 \<and>
        loc t (ascii ''B'') (ascii ''Feb'') = Some 5) \<and>
   \<not> distinct (map (\<lambda>r. (closed_by r, year_month r)) (map snd scenario_triples)) \<and>
   engineer_pivot_table scenario_triples = Inl ValueError \<and>
   month_pivot_table scenario_triples = Inl ValueError"
proof -
  have d: "distinct (map (\<lambda>r. (closed_by r, year_month r)) (map snd unique_triples))"
    by (simp add: unique_triples_def read_csv_def resolved_def ascii_def)
  have n: "\<not> distinct (map (\<lambda>r. (closed_by r, year_month r)) (map snd scenario_triples))"
    by (simp add: scenario_triples_def read_csv_def resolved_def ascii_def)
  have rows: "snd ` set unique_triples = {resolved ''A'' ''Jan'' 5, resolved ''B'' ''Feb'' 5}"
    by (simp add: unique_triples_def read_csv_def)
  from pivot_rejects_duplicates [of unique_triples, THEN conjunct1, THEN mp, OF d, THEN conjunct1]
  obtain t where t: "engineer_pivot_table unique_triples = Inr t"
    and i: "set (frame_index t) = closed_by ` snd ` set unique_triples"
    and c: "set (frame_columns t) = year_month ` snd ` set unique_triples"
    and v: "\<forall>r \<in> snd ` set unique_triples. \<bar>resolved_count r\<bar> \<le> 2 ^ 53 \<longrightarrow>
              loc t (closed_by r) (year_month r) = Some (of_int (resolved_count r))"
    and z: "\<forall>e \<in> closed_by ` snd ` set unique_triples. \<forall>m \<in> year_month ` snd ` set unique_triples.
              loc t e m \<noteq> None \<and>
              ((\<forall>r \<in> snd ` set unique_triples. (closed_by r, year_month r) \<noteq> (e, m)) \<longrightarrow>
               loc t e m = Some 0)"
    by (elim exE conjE)
  have i': "set (frame_index t) = {ascii ''A'', ascii ''B''}"
    unfolding i rows by (simp add: resolved_def)
  have c': "set (frame_columns t) = {ascii ''Jan'', ascii ''Feb''}"
    unfolding c rows by (simp add: resolved_def)
  have aj: "loc t (ascii ''A'') (ascii ''Jan'') = Some 5"
    using v unfolding rows by (simp add: resolved_def)
  have bf: "loc t (ascii ''B'') (ascii ''Feb'') = Some 5"
    using v unfolding rows by (simp add: resolved_def)
  have af: "loc t (ascii ''A'') (ascii ''Feb'') = Some 0"
    using z unfolding rows by (simp add: resolved_def ascii_def)
  have bj: "loc t (ascii ''B'') (ascii ''Jan'') = Some 0"
    using z unfolding rows by (simp add: resolved_def ascii_def)
  have ex: "\<exists>t. engineer_pivot_table unique_triples = Inr t \<and>
        set (frame_index t) = {ascii ''A'', ascii ''B''} \<and>
        set (frame_columns t) = {ascii ''Jan'', ascii ''Feb''} \<and>
        loc t (ascii ''A'') (ascii ''Jan'') = Some 5 \<and>
        loc t (ascii ''A'') (ascii ''Feb'') = Some 0 \<and>
        loc t (ascii ''B'') (ascii ''Jan'') = Some 0 \<and>
        loc t (ascii ''B'') (ascii ''Feb'') = Some 5"
    by (rule exI [where x = t]) (intro conjI t i' c' aj af bj bf)
  note f = pivot_rejects_duplicates [of scenario_triples, THEN conjunct2, THEN mp, OF n]
  have f1: "engineer_pivot_table scenario_triples = Inl ValueError"
    by (rule f [THEN conjunct1])
  have f2: "month_pivot_table scenario_triples = Inl ValueError"
    by (rule f [THEN conjunct2, THEN conjunct1])
  from d ex n f1 f2 show ?thesis
    by - (intro conjI; assumption)
qed

text \<open>
  C1 itself fails on its own scenario: for the rows \<open>(A, Jan, 3)\<close>, \<open>(A, Jan, 2)\<close>,
  \<open>(B, Feb, 5)\<close> there is no grid with the cell \<open>A/Jan = 5\<close>, since the reshaping raises
  \<open>ValueError\<close> and the chart functions with it.
\<close>

theorem scenario_pivot_fails:
  "engineer_pivot_table scenario_triples = Inl ValueError \<and>
   month_pivot_table scenario_triples = Inl ValueError \<and>
   plot_engineer_grouped_resolved_items scenario_triples = Inl ValueError \<and>
   plot_resolved_items_per_month scenario_triples = Inl ValueError"
  by (simp add: plot_engineer_grouped_resolved_items_def plot_resolved_items_per_month_def
      engineer_pivot_table_def month_pivot_table_def pivot_def
      scenario_triples_def read_csv_def resolved_def ascii_def Let_def)

text \<open>
  C4, as amended.  When no two rows of the input have the same engineer and month, then for
  every engineer \<open>e\<close> and every month \<open>m\<close> that occur anywhere in the input the pivot
  table of the two per-month charts has a number in the cell of \<open>m\<close> and \<open>e\<close>, and this
  number is 0 when no row combines \<open>e\<close> with \<open>m\<close>.  Both charts, the stacked and the
  grouped one, have a bar series labelled \<open>e\<close> with one bar for every month of the table,
  and its bar at \<open>m\<close> is as high as the cell: a cell filled with 0 is a bar of height 0.
\<close>

theorem pivot_grid_dense:
  assumes d: "distinct (map (\<lambda>r. (closed_by r, year_month r)) (map snd df))"
    and e: "e \<in> closed_by ` snd ` set df" and m: "m \<in> year_month ` snd ` set df"
  shows "\<exists>t. month_pivot_table df = Inr t \<and> loc t m e \<noteq> None \<and>
     ((\<forall>r \<in> snd ` set df. (closed_by r, year_month r) \<noteq> (e, m)) \<longrightarrow> loc t m e = Some 0) \<and>
     (\<exists>chart s. plot_resolved_items_per_month df = Inr chart \<and> chart_stacked chart \<and>
        s \<in> set (chart_series chart) \<and> bar_label s = e \<and>
        map fst (bar_heights s) = frame_index t \<and> map_of (bar_heights s) m = loc t m e) \<and>
     (\<exists>chart s. plot_grouped_resolved_items_per_month df = Inr chart \<and> \<not> chart_stacked chart \<and>
        s \<in> set (chart_series chart) \<and> bar_label s = e \<and>
        map fst (bar_heights s) = frame_index t \<and> map_of (bar_heights s) m = loc t m e)"
proof -
  from d have d': "distinct (map (\<lambda>r. (year_month r, closed_by r)) (map snd df))"
    by (simp only: distinct_swap_keys [of year_month closed_by])
  from month_pivot_table_unique [OF d] obtain conv where
    eq: "month_pivot_table df =
       Inr \<lparr>frame_index = sort (remdups (map year_month (map snd df))),
            frame_columns = sort (remdups (map closed_by (map snd df))),
            frame_values =
              map (\<lambda>i. map (\<lambda>c. case map_of (map (\<lambda>r. ((year_month r, closed_by r),
                                                          conv (resolved_count r))) (map snd df))
                                       (i, c) of
                                  None \<Rightarrow> 0 | Some u \<Rightarrow> u)
                          (sort (remdups (map closed_by (map snd df)))))
                (sort (remdups (map year_month (map snd df))))\<rparr>"
    by (elim exE conjE)
  define R where "R = sort (remdups (map year_month (map snd df)))"
  define C where "C = sort (remdups (map closed_by (map snd df)))"
  define f where "f = (\<lambda>i c. case map_of (map (\<lambda>r. ((year_month r, closed_by r),
                                   conv (resolved_count r))) (map snd df)) (i, c) of
                        None \<Rightarrow> (0::real) | Some u \<Rightarrow> u)"
  define t where "t = \<lparr>frame_index = R, frame_columns = C, frame_values = map (\<lambda>i. map (f i) C) R\<rparr>"
  have tbl: "month_pivot_table df = Inr t"
    unfolding t_def R_def C_def f_def by (rule eq)
  have mR: "m \<in> set R" and eC: "e \<in> set C"
    using e m by (auto simp: R_def C_def)
  then have R: "R \<noteq> []"
    by auto
  have cell: "loc t m e = Some (f m e)"
    unfolding t_def using mR eC by (simp add: loc_grid)
  have absent: "(\<forall>r \<in> snd ` set df. (closed_by r, year_month r) \<noteq> (e, m)) \<longrightarrow> loc t m e = Some 0"
  proof
    assume "\<forall>r \<in> snd ` set df. (closed_by r, year_month r) \<noteq> (e, m)"
    then have "\<forall>r \<in> set (map snd df). (year_month r, closed_by r) \<noteq> (m, e)"
      by auto
    then have "f m e = 0"
      unfolding f_def by (simp only: map_of_cells_absent option.case)
    with cell show "loc t m e = Some 0"
      by simp
  qed
  have index: "frame_index t = R"
    by (simp add: t_def)
  have bars: "\<exists>chart s. plot_bar b t = Inr chart \<and> chart_stacked chart = b \<and>
        s \<in> set (chart_series chart) \<and> bar_label s = e \<and>
        map fst (bar_heights s) = frame_index t \<and> map_of (bar_heights s) m = loc t m e" for b
    using plot_bar_series [OF R eC mR, of b f, folded t_def] by (simp only: cell index)
  have stacked: "\<exists>chart s. plot_resolved_items_per_month df = Inr chart \<and> chart_stacked chart \<and>
        s \<in> set (chart_series chart) \<and> bar_label s = e \<and>
        map fst (bar_heights s) = frame_index t \<and> map_of (bar_heights s) m = loc t m e"
    using bars [of True] by (simp add: plot_resolved_items_per_month_def tbl)
  have grouped: "\<exists>chart s. plot_grouped_resolved_items_per_month df = Inr chart \<and>
        \<not> chart_stacked chart \<and>
        s \<in> set (chart_series chart) \<and> bar_label s = e \<and>
        map fst (bar_heights s) = frame_index t \<and> map_of (bar_heights s) m = loc t m e"
    using bars [of False] by (simp add: plot_grouped_resolved_items_per_month_def tbl)
  have defined: "loc t m e \<noteq> None"
    by (simp add: cell)
  show ?thesis
    by (rule exI [where x = t]) (intro conjI tbl defined absent stacked grouped)
qed

text \<open>
  In the grid of \<open>(A, Jan, 5)\<close> and \<open>(B, Feb, 5)\<close> the cell of \<open>Feb\<close> and \<open>A\<close> is 0, and
  the stacked chart has a bar of height 0 there.
\<close>

theorem pivot_grid_dense_witness:
  "distinct (map (\<lambda>r. (closed_by r, year_month r)) (map snd unique_triples)) \<and>
   ascii ''A'' \<in> closed_by ` snd ` set unique_triples \<and>
   ascii ''Feb'' \<in> year_month ` snd ` set unique_triples \<and>
   (\<exists>t. month_pivot_table unique_triples = Inr t \<and>
        loc t (ascii ''Feb'') (ascii ''A'') = Some 0 \<and>
        (\<exists>chart s. plot_resolved_items_per_month unique_triples = Inr chart \<and>
           s \<in> set (chart_series chart) \<and> bar_label s = ascii ''A'' \<and>
           map_of (bar_heights s) (ascii ''Feb'') = Some 0))"
proof -
  have d: "distinct (map (\<lambda>r. (closed_by r, year_month r)) (map snd unique_triples))"
    by (simp add: unique_triples_def read_csv_def resolved_def ascii_def)
  have rows: "snd ` set unique_triples = {resolved ''A'' ''Jan'' 5, resolved ''B'' ''Feb'' 5}"
    by (simp add: unique_triples_def read_csv_def)
  have e: "ascii ''A'' \<in> closed_by ` snd ` set unique_triples"
    unfolding rows by (simp add: resolved_def)
  have m: "ascii ''Feb'' \<in> year_month ` snd ` set unique_triples"
    unfolding rows by (simp add: resolved_def)
  have none: "\<forall>r \<in> snd ` set unique_triples. (closed_by r, year_month r) \<noteq> (ascii ''A'', ascii ''Feb'')"
    unfolding rows by (simp add: resolved_def ascii_def)
  from pivot_grid_dense [OF d e m] obtain t chart s where
    t: "month_pivot_table unique_triples = Inr t"
    and z: "(\<forall>r \<in> snd ` set unique_triples. (closed_by r, year_month r) \<noteq> (ascii ''A'', ascii ''Feb'')) \<longrightarrow>
            loc t (ascii ''Feb'') (ascii ''A'') = Some 0"
    and c: "plot_resolved_items_per_month unique_triples = Inr chart"
      "s \<in> set (chart_series chart)" "bar_label s = ascii ''A''"
      "map_of (bar_heights s) (ascii ''Feb'') = loc t (ascii ''Feb'') (ascii ''A'')"
    by (elim exE conjE)
  from z none have zero: "loc t (ascii ''Feb'') (ascii ''A'') = Some 0"
    by (rule mp)
  have bar: "map_of (bar_heights s) (ascii ''Feb'') = Some 0"
    by (simp only: c(4) zero)
  have inner: "\<exists>chart s. plot_resolved_items_per_month unique_triples = Inr chart \<and>
           s \<in> set (chart_series chart) \<and> bar_label s = ascii ''A'' \<and>
           map_of (bar_heights s) (ascii ''Feb'') = Some 0"
    by (rule exI [where x = chart], rule exI [where x = s]) (intro conjI c(1,2,3) bar)
  have ex: "\<exists>t. month_pivot_table unique_triples = Inr t \<and>
        loc t (ascii ''Feb'') (ascii ''A'') = Some 0 \<and>
        (\<exists>chart s. plot_resolved_items_per_month unique_triples = Inr chart \<and>
           s \<in> set (chart_series chart) \<and> bar_label s = ascii ''A'' \<and>
           map_of (bar_heights s) (ascii ''Feb'') = Some 0)"
    by (rule exI [where x = t]) (intro conjI t zero inner)
  from d e m ex show ?thesis
    by - (intro conjI; assumption)
qed

text \<open>
  C4 itself, stated for every input, fails where two rows have the same engineer and month:
  \<open>A\<close> and \<open>Jan\<close> are observed in \<open>(A, Jan, 3)\<close>, \<open>(A, Jan, 2)\<close>, \<open>(B, Feb, 5)\<close>, but
  there is no pivot table and no chart, hence no entry at \<open>A\<close> and \<open>Jan\<close>.
\<close>

theorem duplicate_key_leaves_no_grid:
  "ascii ''A'' \<in> closed_by ` snd ` set scenario_triples \<and>
   ascii ''Jan'' \<in> year_month ` snd ` set scenario_triples \<and>
   month_pivot_table scenario_triples = Inl ValueError \<and>
   plot_resolved_items_per_month scenario_triples = Inl ValueError \<and>
   plot_grouped_resolved_items_per_month scenario_triples = Inl ValueError"
  by (simp add: plot_grouped_resolved_items_per_month_def plot_resolved_items_per_month_def
      month_pivot_table_def pivot_def
      scenario_triples_def read_csv_def resolved_def ascii_def Let_def)

lemma elem_le_sum_abs:
  fixes f :: "'a \<Rightarrow> int"
  shows "x \<in> set xs \<Longrightarrow> \<bar>f x\<bar> \<le> sum_list (map (\<lambda>y. \<bar>f y\<bar>) xs)"
proof (induction xs)
  case Nil
  then show ?case by simp
next
  case (Cons a xs)
  have "0 \<le> sum_list (map (\<lambda>y. \<bar>f y\<bar>) xs)"
    by (rule sum_list_nonneg) auto
  with Cons show ?case
    by auto
qed

lemma table_total:
  fixes conv :: "int \<Rightarrow> real"
  assumes d: "distinct (map (\<lambda>r. (idx r, cols r)) rows)"
    and good: "\<forall>n. \<bar>n\<bar> \<le> 2 ^ 53 \<longrightarrow> conv n = of_int n"
    and b: "sum_list (map (\<lambda>r. \<bar>vals r\<bar>) rows) \<le> 2 ^ 53"
  shows "sum_list (map sum_list
           (map (\<lambda>i. map (\<lambda>c. case map_of (map (\<lambda>r. ((idx r, cols r), conv (vals r))) rows) (i, c) of
                                 None \<Rightarrow> 0 | Some u \<Rightarrow> u)
                        (sort (remdups (map cols rows))))
              (sort (remdups (map idx rows))))) =
         of_int (sum_list (map vals rows))"
proof -
  have "conv (vals r) = of_int (vals r)" if "r \<in> set rows" for r
  proof -
    from elem_le_sum_abs [OF that, of vals] b have "\<bar>vals r\<bar> \<le> 2 ^ 53"
      by linarith
    with good show ?thesis
      by simp
  qed
  then have "map (\<lambda>r. conv (vals r)) rows = map (\<lambda>r. of_int (vals r)) rows"
    by (intro map_cong refl)
  moreover have "sum_list (map (\<lambda>r. real_of_int (vals r)) rows) = of_int (sum_list (map vals rows))"
    by (induction rows) simp_all
  ultimately have "sum_list (map (\<lambda>r. conv (vals r)) rows) = of_int (sum_list (map vals rows))"
    by (simp only:)
  with sum_pivot_cells [OF d, of "\<lambda>r. conv (vals r)"] show ?thesis
    by simp
qed

lemma round64_beyond_53: "round64 9007199254740993 = 9007199254740992"
proof -
  define x :: real where "x = 9007199254740993"
  have a: "\<bar>x\<bar> = x" "sgn x = 1"
    by (simp_all add: x_def)
  have r: "round_half_even (x / 2 powi (53 - 52)) = 4503599627370496"
    by (rule round_half_even_eval(3)) (simp_all add: x_def)
  have "round64 x = sgn x * (of_int (round_half_even (\<bar>x\<bar> / 2 powi (53 - 52))) * 2 powi (53 - 52))"
    by (rule round64_eval) (simp_all add: a, simp_all add: x_def)
  then have "round64 x = 4503599627370496 * 2 powi (53 - 52)"
    unfolding a r by simp
  then show ?thesis
    unfolding x_def by simp
qed

text \<open>
  C5, as amended.  When no two rows of the input have the same engineer and month, and the
  absolute values of the counts add up to at most \<open>2 ^ 53\<close>, then both pivot tables exist
  and the sum of all their cells is the sum of the counts of the input.  Under this bound
  every count and every partial sum of counts is a float64, so that the sum is the same
  whether the cells are added exactly or in float64.
\<close>

theorem pivot_preserves_total:
  assumes d: "distinct (map (\<lambda>r. (closed_by r, year_month r)) (map snd df))"
    and b: "sum_list (map (\<lambda>r. \<bar>resolved_count r\<bar>) (map snd df)) \<le> 2 ^ 53"
  shows "(\<exists>t. month_pivot_table df = Inr t \<and>
              sum_list (map sum_list (frame_values t)) =
                of_int (sum_list (map resolved_count (map snd df)))) \<and>
         (\<exists>t. engineer_pivot_table df = Inr t \<and>
              sum_list (map sum_list (frame_values t)) =
                of_int (sum_list (map resolved_count (map snd df))))"
proof
  from d have d': "distinct (map (\<lambda>r. (year_month r, closed_by r)) (map snd df))"
    by (simp only: distinct_swap_keys [of year_month closed_by])
  from month_pivot_table_unique [OF d] obtain conv where
    good: "\<forall>n. \<bar>n\<bar> \<le> 2 ^ 53 \<longrightarrow> conv n = of_int n" and
    eq: "month_pivot_table df =
       Inr \<lparr>frame_index = sort (remdups (map year_month (map snd df))),
            frame_columns = sort (remdups (map closed_by (map snd df))),
            frame_values =
              map (\<lambda>i. map (\<lambda>c. case map_of (map (\<lambda>r. ((year_month r, closed_by r),
                                                          conv (resolved_count r))) (map snd df))
                                       (i, c) of
                                  None \<Rightarrow> 0 | Some u \<Rightarrow> u)
                          (sort (remdups (map closed_by (map snd df)))))
                (sort (remdups (map year_month (map snd df))))\<rparr>"
    by (elim exE conjE)
  show "\<exists>t. month_pivot_table df = Inr t \<and>
          sum_list (map sum_list (frame_values t)) = of_int (sum_list (map resolved_count (map snd df)))"
    by (intro exI conjI, rule eq) (simp only: frame.select_convs table_total [OF d' good b])
  from engineer_pivot_table_unique [OF d] obtain conv where
    good: "\<forall>n. \<bar>n\<bar> \<le> 2 ^ 53 \<longrightarrow> conv n = of_int n" and
    eq: "engineer_pivot_table df =
       Inr \<lparr>frame_index = sort (remdups (map closed_by (map snd df))),
            frame_columns = sort (remdups (map year_month (map snd df))),
            frame_values =
              map (\<lambda>i. map (\<lambda>c. case map_of (map (\<lambda>r. ((closed_by r, year_month r),
                                                          conv (resolved_count r))) (map snd df))
                                       (i, c) of
                                  None \<Rightarrow> 0 | Some u \<Rightarrow> u)
                          (sort (remdups (map year_month (map snd df)))))
                (sort (remdups (map closed_by (map snd df))))\<rparr>"
    by (elim exE conjE)
  show "\<exists>t. engineer_pivot_table df = Inr t \<and>
          sum_list (map sum_list (frame_values t)) = of_int (sum_list (map resolved_count (map snd df)))"
    by (intro exI conjI, rule eq) (simp only: frame.select_convs table_total [OF d good b])
qed

text \<open>
  The rows \<open>(B, Mar, 1)\<close>, \<open>(A, Feb, 2)\<close>, \<open>(B, Jan, 7)\<close> give two tables whose cells
  add up to 10.
\<close>

theorem pivot_preserves_total_witness:
  "distinct (map (\<lambda>r. (closed_by r, year_month r)) (map snd shuffled_triples)) \<and>
   sum_list (map (\<lambda>r. \<bar>resolved_count r\<bar>) (map snd shuffled_triples)) \<le> 2 ^ 53 \<and>
   (\<exists>t. month_pivot_table shuffled_triples = Inr t \<and>
        sum_list (map sum_list (frame_values t)) = 10) \<and>
   (\<exists>t. engineer_pivot_table shuffled_triples = Inr t \<and>
        sum_list (map sum_list (frame_values t)) = 10)"
proof -
  have d: "distinct (map (\<lambda>r. (closed_by r, year_month r)) (map snd shuffled_triples))"
    by (simp add: shuffled_triples_def read_csv_def resolved_def ascii_def)
  have b: "sum_list (map (\<lambda>r. \<bar>resolved_count r\<bar>) (map snd shuffled_triples)) \<le> 2 ^ 53"
    by (simp add: shuffled_triples_def read_csv_def resolved_def)
  have s: "real_of_int (sum_list (map resolved_count (map snd shuffled_triples))) = 10"
    by (simp add: shuffled_triples_def read_csv_def resolved_def)
  note total = pivot_preserves_total [OF d b, unfolded s]
  from d b total [THEN conjunct1] total [THEN conjunct2] show ?thesis
    by - (intro conjI; assumption)
qed

text \<open>
  C5 itself fails for a count beyond \<open>2 ^ 53\<close> in a grid with an empty cell: the keys of
  \<open>(A, Jan, 2 ^ 53 + 1)\<close> and \<open>(B, Feb, 1)\<close> differ and the counts add up to
  \<open>2 ^ 53 + 2\<close>, but the table is a float64 table, its cell of \<open>Jan\<close> and \<open>A\<close> holds
  \<open>2 ^ 53\<close>, and its cells add up to \<open>2 ^ 53 + 1\<close>.
\<close>

theorem large_count_is_rounded:
  "distinct (zip (map closed_by (map snd huge_triples)) (map year_month (map snd huge_triples))) \<and>
   sum_list (map resolved_count (map snd huge_triples)) = 2 ^ 53 + 2 \<and>
   month_pivot_table huge_triples =
     Inr \<lparr>frame_index = [ascii ''Feb'', ascii ''Jan''],
          frame_columns = [ascii ''A'', ascii ''B''],
          frame_values = [[0, 1], [2 ^ 53, 0]]\<rparr> \<and>
   sum_list (map sum_list (frame_values (projr (month_pivot_table huge_triples)))) = 2 ^ 53 + 1"
  by (simp add: month_pivot_table_def pivot_def fillna_def huge_triples_def read_csv_def
      resolved_def ascii_def Let_def round64_beyond_53)

lemma month_chart_legend:
  assumes d: "distinct (map (\<lambda>r. (closed_by r, year_month r)) (map snd df))" and ne: "df \<noteq> []"
  shows "\<exists>chart. (case month_pivot_table df of Inl e \<Rightarrow> Inl e | Inr t \<Rightarrow> plot_bar b t) = Inr chart \<and>
           legend chart =
             zip (sorted_list_of_set (closed_by ` snd ` set df))
               (map tab20 (linspace01 (card (closed_by ` snd ` set df))))"
proof -
  from month_pivot_table_unique [OF d] obtain conv where
    eq: "month_pivot_table df =
       Inr \<lparr>frame_index = sort (remdups (map year_month (map snd df))),
            frame_columns = sort (remdups (map closed_by (map snd df))),
            frame_values =
              map (\<lambda>i. map (\<lambda>c. case map_of (map (\<lambda>r. ((year_month r, closed_by r),
                                                          conv (resolved_count r))) (map snd df))
                                       (i, c) of
                                  None \<Rightarrow> 0 | Some u \<Rightarrow> u)
                          (sort (remdups (map closed_by (map snd df)))))
                (sort (remdups (map year_month (map snd df))))\<rparr>"
    by (elim exE conjE)
  define R where "R = sort (remdups (map year_month (map snd df)))"
  define C where "C = sort (remdups (map closed_by (map snd df)))"
  define f where "f = (\<lambda>i c. case map_of (map (\<lambda>r. ((year_month r, closed_by r),
                                   conv (resolved_count r))) (map snd df)) (i, c) of
                        None \<Rightarrow> (0::real) | Some u \<Rightarrow> u)"
  have tbl: "month_pivot_table df =
      Inr \<lparr>frame_index = R, frame_columns = C, frame_values = map (\<lambda>i. map (f i) C) R\<rparr>"
    unfolding R_def C_def f_def by (rule eq)
  from ne have "set R \<noteq> {}" and "set C \<noteq> {}"
    by (simp_all add: R_def C_def)
  then have R: "R \<noteq> []" and C: "C \<noteq> []"
    by auto
  have keys: "C = sorted_list_of_set (closed_by ` snd ` set df)"
    by (simp add: C_def sorted_list_of_set_sort_remdups [symmetric] image_image)
  have n: "length C = card (closed_by ` snd ` set df)"
    by (simp add: keys)
  from plot_bar_legend [OF R C, of b f] obtain chart where
    p: "plot_bar b \<lparr>frame_index = R, frame_columns = C, frame_values = map (\<lambda>i. map (f i) C) R\<rparr> =
        Inr chart"
    and l: "legend chart = zip C (map tab20 (linspace01 (length C)))"
    by (elim exE conjE)
  have 1: "(case month_pivot_table df of Inl e \<Rightarrow> Inl e | Inr t \<Rightarrow> plot_bar b t) = Inr chart"
    by (simp only: tbl sum.case p)
  have 2: "legend chart =
             zip (sorted_list_of_set (closed_by ` snd ` set df))
               (map tab20 (linspace01 (card (closed_by ` snd ` set df))))"
    using l by (simp only: n) (simp only: keys)
  show ?thesis
    by (rule exI [where x = chart]) (rule conjI [OF 1 2])
qed

lemma sampled_colours:
  assumes "0 < n"
  shows "length (map tab20 (linspace01 n)) = n"
    and "\<forall>colour \<in> set (map tab20 (linspace01 n)). colour < 20"
    and "map tab20 (linspace01 n) ! 0 = 0"
    and "2 \<le> n \<longrightarrow> map tab20 (linspace01 n) ! (n - 1) = 19"
proof -
  show "length (map tab20 (linspace01 n)) = n"
    by simp
  show "\<forall>colour \<in> set (map tab20 (linspace01 n)). colour < 20"
    by (simp add: tab20_less)
  show "map tab20 (linspace01 n) ! 0 = 0"
    using assms by (simp add: linspace01_first tab20_ends)
  show "2 \<le> n \<longrightarrow> map tab20 (linspace01 n) ! (n - 1) = 19"
  proof
    assume n: "2 \<le> n"
    then have "map tab20 (linspace01 n) ! (n - 1) = tab20 (linspace01 n ! (n - 1))"
      by (intro nth_map) simp
    with n show "map tab20 (linspace01 n) ! (n - 1) = 19"
      by (simp only: linspace01_last tab20_ends)
  qed
qed

text \<open>
  C8, as amended.  Take two inputs, neither with two rows of the same engineer and month,
  the first not empty, in which the same engineers occur (in any order, with any months and
  counts).  Then the stacked and the grouped chart of both inputs exist and all four have
  the same legend, which is a function of the set of engineers alone: the engineers in
  ascending order, the \<open>j\<close>-th of \<open>n\<close> with the colour that \<open>tab20\<close> has at the \<open>j\<close>-th
  of the \<open>n\<close> evenly spaced points of \<open>np.linspace(0, 1, n)\<close>.  Every colour is one of the
  20 of the palette, the first engineer has the first colour, and with two or more
  engineers the last engineer has the last colour: the palette is sampled, not cycled.
\<close>

theorem bar_colours_fixed_by_column_keys:
  assumes d1: "distinct (map (\<lambda>r. (closed_by r, year_month r)) (map snd df1))"
    and d2: "distinct (map (\<lambda>r. (closed_by r, year_month r)) (map snd df2))"
    and ne: "df1 \<noteq> []"
    and same: "closed_by ` snd ` set df1 = closed_by ` snd ` set df2"
  shows "\<exists>stacked1 stacked2 grouped1 grouped2.
     plot_resolved_items_per_month df1 = Inr stacked1 \<and>
     plot_resolved_items_per_month df2 = Inr stacked2 \<and>
     plot_grouped_resolved_items_per_month df1 = Inr grouped1 \<and>
     plot_grouped_resolved_items_per_month df2 = Inr grouped2 \<and>
     legend stacked1 =
       zip (sorted_list_of_set (closed_by ` snd ` set df1))
         (map tab20 (linspace01 (card (closed_by ` snd ` set df1)))) \<and>
     legend stacked2 = legend stacked1 \<and>
     legend grouped1 = legend stacked1 \<and>
     legend grouped2 = legend stacked1 \<and>
     map fst (legend stacked1) = sorted_list_of_set (closed_by ` snd ` set df1) \<and>
     (\<forall>colour \<in> snd ` set (legend stacked1). colour < 20) \<and>
     snd (legend stacked1 ! 0) = 0 \<and>
     (2 \<le> card (closed_by ` snd ` set df1) \<longrightarrow>
        snd (legend stacked1 ! (card (closed_by ` snd ` set df1) - 1)) = 19)"
proof -
  define K where "K = closed_by ` snd ` set df1"
  define L where "L = zip (sorted_list_of_set K) (map tab20 (linspace01 (card K)))"
  from ne have K: "K \<noteq> {}" and fin: "finite K"
    by (simp_all add: K_def)
  then have n: "0 < card K"
    by (simp add: card_gt_0_iff)
  from K same have ne2: "df2 \<noteq> []"
    by (auto simp: K_def)
  note c = sampled_colours [OF n]
  have len: "length (sorted_list_of_set K) = length (map tab20 (linspace01 (card K)))"
    by simp
  from month_chart_legend [OF d1 ne, of True] obtain s1 where
    s1: "plot_resolved_items_per_month df1 = Inr s1" "legend s1 = L"
    unfolding plot_resolved_items_per_month_def L_def K_def by (elim exE conjE)
  from month_chart_legend [OF d2 ne2, of True] obtain s2 where
    s2: "plot_resolved_items_per_month df2 = Inr s2" "legend s2 = L"
    unfolding plot_resolved_items_per_month_def L_def K_def same by (elim exE conjE)
  from month_chart_legend [OF d1 ne, of False] obtain g1 where
    g1: "plot_grouped_resolved_items_per_month df1 = Inr g1" "legend g1 = L"
    unfolding plot_grouped_resolved_items_per_month_def L_def K_def by (elim exE conjE)
  from month_chart_legend [OF d2 ne2, of False] obtain g2 where
    g2: "plot_grouped_resolved_items_per_month df2 = Inr g2" "legend g2 = L"
    unfolding plot_grouped_resolved_items_per_month_def L_def K_def same by (elim exE conjE)
  have keys: "map fst L = sorted_list_of_set K"
    unfolding L_def using len by (rule map_fst_zip)
  have cols: "map snd L = map tab20 (linspace01 (card K))"
    unfolding L_def using len by (rule map_snd_zip)
  have lenL: "length L = card K"
    by (simp add: L_def)
  have range: "\<forall>colour \<in> snd ` set L. colour < 20"
    using c(2) by (simp only: cols [symmetric] set_map)
  have first: "snd (L ! 0) = 0"
  proof -
    have "snd (L ! 0) = map snd L ! 0"
      using n lenL by (simp only: nth_map)
    then show ?thesis
      by (simp only: cols c(3))
  qed
  have final: "2 \<le> card K \<longrightarrow> snd (L ! (card K - 1)) = 19"
  proof
    assume two: "2 \<le> card K"
    have "snd (L ! (card K - 1)) = map snd L ! (card K - 1)"
      using n lenL by (intro nth_map [symmetric]) simp
    with c(4) two show "snd (L ! (card K - 1)) = 19"
      by (simp only: cols)
  qed
  have 21: "legend s2 = legend s1" and 31: "legend g1 = legend s1" and 41: "legend g2 = legend s1"
    by (simp_all only: s1(2) s2(2) g1(2) g2(2))
  show ?thesis
    unfolding K_def [symmetric]
    apply (rule exI [where x = s1], rule exI [where x = s2])
    apply (rule exI [where x = g1], rule exI [where x = g2])
    by (intro conjI s1(1) s2(1) g1(1) g2(1) 21 31 41 L_def [folded s1(2)] keys [folded s1(2)]
        range [folded s1(2)] first [folded s1(2)] final [folded s1(2)])
qed

text \<open>
  The inputs \<open>(A, Jan, 5)\<close>, \<open>(B, Feb, 5)\<close> and \<open>(B, Mar, 1)\<close>, \<open>(A, Feb, 2)\<close>,
  \<open>(B, Jan, 7)\<close> have the engineers \<open>A\<close> and \<open>B\<close>; in both charts \<open>A\<close> has the first
  colour of the palette and \<open>B\<close> the last.
\<close>

theorem bar_colours_fixed_by_column_keys_witness:
  "distinct (map (\<lambda>r. (closed_by r, year_month r)) (map snd unique_triples)) \<and>
   distinct (map (\<lambda>r. (closed_by r, year_month r)) (map snd shuffled_triples)) \<and>
   unique_triples \<noteq> [] \<and>
   closed_by ` snd ` set unique_triples = closed_by ` snd ` set shuffled_triples \<and>
   (\<exists>stacked1 stacked2.
      plot_resolved_items_per_month unique_triples = Inr stacked1 \<and>
      plot_resolved_items_per_month shuffled_triples = Inr stacked2 \<and>
      legend stacked2 = legend stacked1 \<and>
      legend stacked1 = [(ascii ''A'', 0), (ascii ''B'', 19)])"
proof -
  have d1: "distinct (map (\<lambda>r. (closed_by r, year_month r)) (map snd unique_triples))"
    by (simp add: unique_triples_def read_csv_def resolved_def ascii_def)
  have d2: "distinct (map (\<lambda>r. (closed_by r, year_month r)) (map snd shuffled_triples))"
    by (simp add: shuffled_triples_def read_csv_def resolved_def ascii_def)
  have ne: "unique_triples \<noteq> []"
    by (simp add: unique_triples_def read_csv_def)
  have k1: "closed_by ` snd ` set unique_triples = set [ascii ''A'', ascii ''B'']"
    by (simp add: unique_triples_def read_csv_def resolved_def)
  have k2: "closed_by ` snd ` set shuffled_triples = set [ascii ''A'', ascii ''B'']"
    by (auto simp: shuffled_triples_def read_csv_def resolved_def)
  have same: "closed_by ` snd ` set unique_triples = closed_by ` snd ` set shuffled_triples"
    by (simp only: k1 k2)
  have sorted: "sorted_list_of_set (closed_by ` snd ` set unique_triples) = [ascii ''A'', ascii ''B'']"
    unfolding k1 sorted_list_of_set_sort_remdups by (simp add: ascii_def)
  have n: "card (closed_by ` snd ` set unique_triples) = 2"
    using arg_cong [OF sorted, of length] by simp
  have colours: "map tab20 (linspace01 2) = [0, 19]"
    by (simp add: linspace01_def tab20_ends)
  from bar_colours_fixed_by_column_keys [OF d1 d2 ne same] obtain stacked1 stacked2 where
    s1: "plot_resolved_items_per_month unique_triples = Inr stacked1"
    and s2: "plot_resolved_items_per_month shuffled_triples = Inr stacked2"
    and l: "legend stacked1 =
       zip (sorted_list_of_set (closed_by ` snd ` set unique_triples))
         (map tab20 (linspace01 (card (closed_by ` snd ` set unique_triples))))"
    and e: "legend stacked2 = legend stacked1"
    by (elim exE conjE)
  have l': "legend stacked1 = [(ascii ''A'', 0), (ascii ''B'', 19)]"
    unfolding l sorted n colours by simp
  have ex: "\<exists>stacked1 stacked2.
      plot_resolved_items_per_month unique_triples = Inr stacked1 \<and>
      plot_resolved_items_per_month shuffled_triples = Inr stacked2 \<and>
      legend stacked2 = legend stacked1 \<and>
      legend stacked1 = [(ascii ''A'', 0), (ascii ''B'', 19)]"
    by (rule exI [where x = stacked1], rule exI [where x = stacked2]) (intro conjI s1 s2 e l')
  from d1 d2 ne same ex show ?thesis
    by - (intro conjI; assumption)
qed

text \<open>
  C8 itself fails in its last part: with the 21 engineers \<open>A\<close> to \<open>U\<close>, one more than the
  palette has colours, the palette does not start again for the 21st.  A cycling palette
  would give \<open>U\<close> the colour 0 of \<open>A\<close>; the chart gives \<open>U\<close> the last colour, 19.
\<close>

theorem twenty_first_colour_is_the_last:
  "card (closed_by ` snd ` set crowd) = 21 \<and>
   \<not> isl (plot_resolved_items_per_month crowd) \<and>
   length (legend (projr (plot_resolved_items_per_month crowd))) = 21 \<and>
   legend (projr (plot_resolved_items_per_month crowd)) ! 0 = (ascii ''A'', 0) \<and>
   legend (projr (plot_resolved_items_per_month crowd)) ! 20 = (ascii ''U'', 19)"
proof -
  have d: "distinct (map (\<lambda>r. (closed_by r, year_month r)) (map snd crowd))"
    by (simp add: crowd_def read_csv_def resolved_def ascii_def)
  have ne: "crowd \<noteq> []"
    by (simp add: crowd_def read_csv_def)
  have keys: "closed_by ` snd ` set crowd = set (map (\<lambda>e. ascii [e]) ''ABCDEFGHIJKLMNOPQRSTU'')"
    by (simp add: crowd_def read_csv_def resolved_def)
  have sorted: "sorted_list_of_set (closed_by ` snd ` set crowd) =
      map (\<lambda>e. ascii [e]) ''ABCDEFGHIJKLMNOPQRSTU''"
    unfolding keys sorted_list_of_set_sort_remdups by (simp add: ascii_def)
  have n: "card (closed_by ` snd ` set crowd) = 21"
    using arg_cong [OF sorted, of length] by simp
  from month_chart_legend [OF d ne, of True] obtain chart where
    c: "plot_resolved_items_per_month crowd = Inr chart"
    and l: "legend chart = zip (map (\<lambda>e. ascii [e]) ''ABCDEFGHIJKLMNOPQRSTU'') (map tab20 (linspace01 21))"
    unfolding plot_resolved_items_per_month_def sorted n by (elim exE conjE)
  have len: "length (legend chart) = 21"
    by (simp add: l)
  have first: "legend chart ! 0 = (ascii ''A'', 0)"
    by (simp add: l linspace01_first tab20_ends)
  have "linspace01 21 ! (21 - 1) = 1"
    by (rule linspace01_last) simp
  then have final: "legend chart ! 20 = (ascii ''U'', 19)"
    by (simp add: l tab20_ends)
  from n len first final show ?thesis
    by (simp add: c)
qed

end
